theory Spec2Isabelle
  imports Main "HOL-Library.Word"
begin

unbundle bit_operations_syntax

section \<open>Python values and exceptions\<close>

text \<open>
  The flow generator \<^verbatim>\<open>ddosflowgen.py\<close> is embedded function by function. Python
  integers are \<open>int\<close>, strings are \<open>string\<close> (the bytes of their UTF-8 encoding),
  every exception the program can raise is a constructor of \<open>pyerr\<close>, and a call that
  may raise returns \<open>pyerr + 'a\<close> with \<open>Inl\<close> for the exception.
  \<open>RandomExhausted\<close> is not a Python exception: the random source of the model is a
  finite tape of draws, and running off its end stops the model with this value.
\<close>

datatype pyerr =
    IndexError | TypeError | ValueError | AttributeError | OverflowError | SystemExit
  | RandomExhausted

text \<open>Microseconds since 0001-01-01T00:00:00, the value of \<^verbatim>\<open>datetime.min\<close>.\<close>

type_synonym datetime = int

text \<open>
  An element of the parsed list: one of the \<^verbatim>\<open>str\<close> pieces of the line, the
  \<^verbatim>\<open>datetime\<close> that \<^verbatim>\<open>parse_line\<close> stores at index 12, or \<^verbatim>\<open>None\<close> (a victim
  address that a topology left out).
\<close>

datatype pyval = Str string | DateTime datetime | PyNone

subsection \<open>Strings: \<^verbatim>\<open>str(int)\<close>, \<^verbatim>\<open>strip\<close>, \<^verbatim>\<open>split\<close>, \<^verbatim>\<open>rjust\<close>\<close>

definition digit_char :: "nat \<Rightarrow> char" where
  "digit_char d = ''0123456789'' ! d"

fun digits :: "nat \<Rightarrow> string" where
  "digits n = (if n < 10 then [digit_char n] else digits (n div 10) @ [digit_char (n mod 10)])"

declare digits.simps [simp del]

definition str_int :: "int \<Rightarrow> string" where
  "str_int i = (if i < 0 then CHR ''-'' # digits (nat (- i)) else digits (nat i))"

text \<open>Decimal rendering in a fixed width with leading zeros.\<close>

definition zpad :: "nat \<Rightarrow> int \<Rightarrow> string" where
  "zpad w n = map (\<lambda>i. digit_char (nat ((n div 10 ^ (w - 1 - i)) mod 10))) [0..<w]"

text \<open>The ASCII characters that \<^verbatim>\<open>str.strip()\<close> removes.\<close>

definition is_space :: "char \<Rightarrow> bool" where
  "is_space c = (of_char c \<in> {9, 10, 11, 12, 13, 28, 29, 30, 31, 32 :: nat})"

definition strip :: "string \<Rightarrow> string" where
  "strip s = rev (dropWhile is_space (rev (dropWhile is_space s)))"

fun split :: "char \<Rightarrow> string \<Rightarrow> string list" where
  "split c [] = [[]]"
| "split c (x # xs) =
     (if x = c then [] # split c xs
      else (case split c xs of [] \<Rightarrow> [[x]] | w # ws \<Rightarrow> (x # w) # ws))"

definition rjust :: "nat \<Rightarrow> string \<Rightarrow> string" where
  "rjust w s = replicate (w - length s) CHR '' '' @ s"

section \<open>The digest: \<^verbatim>\<open>hashlib.md5\<close>\<close>

text \<open>
  \<^verbatim>\<open>md5it\<close> calls the MD5 of the Python library. It is modelled from RFC 1321 on
  32-bit values held in \<open>nat\<close>, with the wrap-around written out.
\<close>

definition md5_K :: "nat list" where
  "md5_K =
    [0xd76aa478, 0xe8c7b756, 0x242070db, 0xc1bdceee, 0xf57c0faf, 0x4787c62a, 0xa8304613,
     0xfd469501, 0x698098d8, 0x8b44f7af, 0xffff5bb1, 0x895cd7be, 0x6b901122, 0xfd987193,
     0xa679438e, 0x49b40821, 0xf61e2562, 0xc040b340, 0x265e5a51, 0xe9b6c7aa, 0xd62f105d,
     0x02441453, 0xd8a1e681, 0xe7d3fbc8, 0x21e1cde6, 0xc33707d6, 0xf4d50d87, 0x455a14ed,
     0xa9e3e905, 0xfcefa3f8, 0x676f02d9, 0x8d2a4c8a, 0xfffa3942, 0x8771f681, 0x6d9d6122,
     0xfde5380c, 0xa4beea44, 0x4bdecfa9, 0xf6bb4b60, 0xbebfbc70, 0x289b7ec6, 0xeaa127fa,
     0xd4ef3085, 0x04881d05, 0xd9d4d039, 0xe6db99e5, 0x1fa27cf8, 0xc4ac5665, 0xf4292244,
     0x432aff97, 0xab9423a7, 0xfc93a039, 0x655b59c3, 0x8f0ccc92, 0xffeff47d, 0x85845dd1,
     0x6fa87e4f, 0xfe2ce6e0, 0xa3014314, 0x4e0811a1, 0xf7537e82, 0xbd3af235, 0x2ad7d2bb,
     0xeb86d391]"

definition md5_S :: "nat list" where
  "md5_S =
    [7, 12, 17, 22, 7, 12, 17, 22, 7, 12, 17, 22, 7, 12, 17, 22, 5, 9, 14, 20, 5, 9, 14,
     20, 5, 9, 14, 20, 5, 9, 14, 20, 4, 11, 16, 23, 4, 11, 16, 23, 4, 11, 16, 23, 4, 11,
     16, 23, 6, 10, 15, 21, 6, 10, 15, 21, 6, 10, 15, 21, 6, 10, 15, 21]"

definition add32 :: "nat \<Rightarrow> nat \<Rightarrow> nat" where
  "add32 x y = (x + y) mod 4294967296"

definition not32 :: "nat \<Rightarrow> nat" where
  "not32 x = x XOR 4294967295"

definition rotl32 :: "nat \<Rightarrow> nat \<Rightarrow> nat" where
  "rotl32 x n = (x * 2 ^ n) mod 4294967296 OR x div 2 ^ (32 - n)"

fun le_word :: "nat list \<Rightarrow> nat" where
  "le_word [] = 0"
| "le_word (b # bs) = b + 256 * le_word bs"

definition word_bytes :: "nat \<Rightarrow> nat \<Rightarrow> nat list" where
  "word_bytes k v = map (\<lambda>i. (v div 256 ^ i) mod 256) [0..<k]"

definition md5_pad :: "nat list \<Rightarrow> nat list" where
  "md5_pad msg = msg @ [128] @ map (\<lambda>i. 0) [0..<(119 - length msg mod 64) mod 64]
       @ word_bytes 8 ((8 * length msg) mod 2 ^ 64)"

definition chunks :: "nat \<Rightarrow> 'a list \<Rightarrow> 'a list list" where
  "chunks n xs = map (\<lambda>i. take n (drop (i * n) xs)) [0..<length xs div n]"

definition md5_F :: "nat \<Rightarrow> nat \<Rightarrow> nat \<Rightarrow> nat \<Rightarrow> nat" where
  "md5_F i B C D =
     (if i < 16 then (B AND C) OR (not32 B AND D)
      else if i < 32 then (D AND B) OR (not32 D AND C)
      else if i < 48 then B XOR C XOR D
      else C XOR (B OR not32 D))"

definition md5_g :: "nat \<Rightarrow> nat" where
  "md5_g i =
     (if i < 16 then i
      else if i < 32 then (5 * i + 1) mod 16
      else if i < 48 then (3 * i + 5) mod 16
      else (7 * i) mod 16)"

fun md5_step :: "nat list \<Rightarrow> (nat \<times> nat \<times> nat \<times> nat) \<Rightarrow> nat
    \<Rightarrow> (nat \<times> nat \<times> nat \<times> nat)" where
  "md5_step M (A, B, C, D) i =
     (D, add32 B (rotl32 (add32 (add32 (add32 (md5_F i B C D) A) (md5_K ! i)) (M ! md5_g i))
                    (md5_S ! i)), B, C)"

fun add4 :: "(nat \<times> nat \<times> nat \<times> nat) \<Rightarrow> (nat \<times> nat \<times> nat \<times> nat)
    \<Rightarrow> (nat \<times> nat \<times> nat \<times> nat)" where
  "add4 (a0, b0, c0, d0) (A, B, C, D) = (add32 a0 A, add32 b0 B, add32 c0 C, add32 d0 D)"

definition md5_block :: "(nat \<times> nat \<times> nat \<times> nat) \<Rightarrow> nat list
    \<Rightarrow> (nat \<times> nat \<times> nat \<times> nat)" where
  "md5_block h blk = add4 h (foldl (md5_step (map le_word (chunks 4 blk))) h [0..<64])"

fun digest_bytes :: "(nat \<times> nat \<times> nat \<times> nat) \<Rightarrow> nat list" where
  "digest_bytes (a, b, c, d) = word_bytes 4 a @ word_bytes 4 b @ word_bytes 4 c @ word_bytes 4 d"

definition md5 :: "nat list \<Rightarrow> nat list" where
  "md5 msg = digest_bytes
     (foldl md5_block (0x67452301, 0xefcdab89, 0x98badcfe, 0x10325476) (chunks 64 (md5_pad msg)))"

text \<open>
  \<^verbatim>\<open>md5it(text)\<close>: the digest of the encoded text; indexing the \<^verbatim>\<open>bytes\<close> object
  gives integers.
\<close>

definition md5it :: "string \<Rightarrow> int list" where
  "md5it text = map int (md5 (map of_char text))"

section \<open>Dates: \<^verbatim>\<open>datetime\<close> and \<^verbatim>\<open>timedelta\<close>\<close>

text \<open>
  Modelled from the Python library: the proleptic Gregorian calendar of \<^verbatim>\<open>datetime\<close>
  (\<^verbatim>\<open>_ymd2ord\<close>, \<^verbatim>\<open>_ord2ymd\<close>), a \<^verbatim>\<open>datetime\<close> as its count of microseconds from
  year 1, a \<^verbatim>\<open>timedelta\<close> as a count of microseconds.
\<close>

definition is_leap :: "int \<Rightarrow> bool" where
  "is_leap y = (y mod 4 = 0 \<and> (y mod 100 \<noteq> 0 \<or> y mod 400 = 0))"

definition days_before_year :: "int \<Rightarrow> int" where
  "days_before_year y = (y - 1) * 365 + (y - 1) div 4 - (y - 1) div 100 + (y - 1) div 400"

definition days_in_month :: "int \<Rightarrow> int \<Rightarrow> int" where
  "days_in_month y m =
     (if m = 2 \<and> is_leap y then 29
      else [31, 28, 31, 30, 31, 30, 31, 31, 30, 31, 30, 31] ! nat (m - 1))"

definition days_before_month :: "int \<Rightarrow> int \<Rightarrow> int" where
  "days_before_month y m =
     [0, 31, 59, 90, 120, 151, 181, 212, 243, 273, 304, 334] ! nat (m - 1)
       + (if 2 < m \<and> is_leap y then 1 else 0)"

definition ymd2ord :: "int \<Rightarrow> int \<Rightarrow> int \<Rightarrow> int" where
  "ymd2ord y m d = days_before_year y + days_before_month y m + d"

text \<open>
  \<^verbatim>\<open>_ord2ymd\<close>: \<open>n400\<close>, \<open>n100\<close>, \<open>n4\<close>, \<open>n1\<close> count the whole 400-, 100-, 4- and
  1-year cycles before day \<open>n\<close> and \<open>o2_rest\<close> is the day within the year.
\<close>

definition o2_n400 :: "int \<Rightarrow> int" where "o2_n400 n = (n - 1) div 146097"
definition o2_n100 :: "int \<Rightarrow> int" where "o2_n100 n = ((n - 1) mod 146097) div 36524"
definition o2_n4 :: "int \<Rightarrow> int" where "o2_n4 n = (((n - 1) mod 146097) mod 36524) div 1461"
definition o2_n1 :: "int \<Rightarrow> int" where
  "o2_n1 n = ((((n - 1) mod 146097) mod 36524) mod 1461) div 365"
definition o2_rest :: "int \<Rightarrow> int" where
  "o2_rest n = ((((n - 1) mod 146097) mod 36524) mod 1461) mod 365"

definition o2_year :: "int \<Rightarrow> int" where
  "o2_year n = o2_n400 n * 400 + 1 + o2_n100 n * 100 + o2_n4 n * 4 + o2_n1 n"

definition o2_leap :: "int \<Rightarrow> bool" where
  "o2_leap n = (o2_n1 n = 3 \<and> (o2_n4 n \<noteq> 24 \<or> o2_n100 n = 3))"

definition o2_preceding :: "int \<Rightarrow> int \<Rightarrow> int" where
  "o2_preceding n month =
     [0, 31, 59, 90, 120, 151, 181, 212, 243, 273, 304, 334] ! nat (month - 1)
       + (if 2 < month \<and> o2_leap n then 1 else 0)"

definition o2_month :: "int \<Rightarrow> int" where
  "o2_month n =
     (if o2_preceding n ((o2_rest n + 50) div 32) > o2_rest n
      then (o2_rest n + 50) div 32 - 1 else (o2_rest n + 50) div 32)"

definition ord2ymd :: "int \<Rightarrow> int \<times> int \<times> int" where
  "ord2ymd n =
     (if o2_n1 n = 4 \<or> o2_n100 n = 4 then (o2_year n - 1, 12, 31)
      else (o2_year n, o2_month n, o2_rest n - o2_preceding n (o2_month n) + 1))"

definition us_per_day :: int where "us_per_day = 86400000000"

text \<open>One past \<^verbatim>\<open>datetime.max\<close>, 9999-12-31T23:59:59.999999.\<close>

definition dt_limit :: int where "dt_limit = 3652059 * 86400000000"

text \<open>\<^verbatim>\<open>timedelta(...)\<close> raises when the normalised day count leaves \<open>\<plusminus>999999999\<close>.\<close>

definition timedelta :: "int \<Rightarrow> pyerr + int" where
  "timedelta us =
     (if - 999999999 \<le> us div us_per_day \<and> us div us_per_day \<le> 999999999 then Inr us
      else Inl OverflowError)"

text \<open>
  \<^verbatim>\<open>x + delta\<close>: a \<^verbatim>\<open>str\<close> on the left is a TypeError, a date outside years 1 to 9999
  an OverflowError.
\<close>

fun add_delta :: "pyval \<Rightarrow> int \<Rightarrow> pyerr + datetime" where
  "add_delta (Str s) d = Inl TypeError"
| "add_delta PyNone d = Inl TypeError"
| "add_delta (DateTime t) d =
     (if 0 \<le> t + d \<and> t + d < dt_limit then Inr (t + d) else Inl OverflowError)"

text \<open>
  \<^verbatim>\<open>strftime('%Y/%m/%dT%H:%M:%S.%f')\<close>, the year written as the C library of Linux
  writes it, without padding (other platforms pad a year below 1000 with zeros).
\<close>

definition strftime :: "datetime \<Rightarrow> string" where
  "strftime t =
     str_int (fst (ord2ymd (t div us_per_day + 1))) @ ''/''
     @ zpad 2 (fst (snd (ord2ymd (t div us_per_day + 1)))) @ ''/''
     @ zpad 2 (snd (snd (ord2ymd (t div us_per_day + 1)))) @ ''T''
     @ zpad 2 ((t mod us_per_day) div 3600000000) @ '':''
     @ zpad 2 ((t mod 3600000000) div 60000000) @ '':''
     @ zpad 2 ((t mod 60000000) div 1000000) @ ''.''
     @ zpad 6 (t mod 1000000)"

text \<open>The slice \<^verbatim>\<open>[:-3]\<close> applied to the rendering: microseconds cut to milliseconds.\<close>

definition stamp :: "datetime \<Rightarrow> string" where
  "stamp t = take (length (strftime t) - 3) (strftime t)"

text \<open>\<^verbatim>\<open>str(datetime)\<close>, used only if a \<^verbatim>\<open>datetime\<close> is printed as the flags field.\<close>

definition str_datetime :: "datetime \<Rightarrow> string" where
  "str_datetime t =
     zpad 4 (fst (ord2ymd (t div us_per_day + 1))) @ ''-''
     @ zpad 2 (fst (snd (ord2ymd (t div us_per_day + 1)))) @ ''-''
     @ zpad 2 (snd (snd (ord2ymd (t div us_per_day + 1)))) @ '' ''
     @ zpad 2 ((t mod us_per_day) div 3600000000) @ '':''
     @ zpad 2 ((t mod 3600000000) div 60000000) @ '':''
     @ zpad 2 ((t mod 60000000) div 1000000)
     @ (if t mod 1000000 = 0 then [] else ''.'' @ zpad 6 (t mod 1000000))"

subsection \<open>\<^verbatim>\<open>strptime\<close> with the format of the noise files\<close>

text \<open>
  Modelled from the library's \<^verbatim>\<open>_strptime\<close> on ASCII input: the format
  \<^verbatim>\<open>%Y/%m/%dT%H:%M:%S.%f\<close> is a sequence of digit fields and literal characters. A
  year has exactly four digits, the other fields one or two, the day may be a blank and
  one digit, the fraction has one to six digits and is scaled to microseconds, the
  letter matches in either case, nothing may follow. Every failure is a ValueError.
\<close>

datatype fmt_item = Digits nat nat | Lit string | DayField | Fraction

definition is_digit :: "char \<Rightarrow> bool" where
  "is_digit c = (c \<in> set ''0123456789'')"

definition digit_val :: "char \<Rightarrow> int" where
  "digit_val c = int (of_char c) - 48"

definition num_val :: "string \<Rightarrow> int" where
  "num_val s = foldl (\<lambda>a c. 10 * a + digit_val c) 0 s"

fun scan :: "fmt_item list \<Rightarrow> string \<Rightarrow> int list option" where
  "scan [] s = (if s = [] then Some [] else None)"
| "scan (Digits lo hi # fs) s =
     (if lo \<le> length (takeWhile is_digit s) \<and> length (takeWhile is_digit s) \<le> hi
      then map_option ((#) (num_val (takeWhile is_digit s))) (scan fs (dropWhile is_digit s))
      else None)"
| "scan (Lit cs # fs) s =
     (case s of [] \<Rightarrow> None | c # r \<Rightarrow> if c \<in> set cs then scan fs r else None)"
| "scan (DayField # fs) s =
     (case s of [] \<Rightarrow> None
      | c # r \<Rightarrow>
          if c = CHR '' '' then
            (if length (takeWhile is_digit r) = 1
             then map_option ((#) (num_val (takeWhile is_digit r))) (scan fs (dropWhile is_digit r))
             else None)
          else
            (if 1 \<le> length (takeWhile is_digit s) \<and> length (takeWhile is_digit s) \<le> 2
             then map_option ((#) (num_val (takeWhile is_digit s))) (scan fs (dropWhile is_digit s))
             else None))"
| "scan (Fraction # fs) s =
     (if 1 \<le> length (takeWhile is_digit s) \<and> length (takeWhile is_digit s) \<le> 6
      then map_option ((#) (num_val (takeWhile is_digit s) * 10 ^ (6 - length (takeWhile is_digit s))))
             (scan fs (dropWhile is_digit s))
      else None)"

definition stime_format :: "fmt_item list" where
  "stime_format =
     [Digits 4 4, Lit ''/'', Digits 1 2, Lit ''/'', DayField, Lit ''Tt'', Digits 1 2, Lit '':'',
      Digits 1 2, Lit '':'', Digits 1 2, Lit ''.'', Fraction]"

fun datetime_of :: "int list \<Rightarrow> pyerr + datetime" where
  "datetime_of [y, m, d, H, M, S, f] =
     (if 1 \<le> y \<and> 1 \<le> m \<and> m \<le> 12 \<and> 1 \<le> d \<and> d \<le> days_in_month y m
         \<and> H \<le> 23 \<and> M \<le> 59 \<and> S \<le> 59
      then Inr ((ymd2ord y m d - 1) * us_per_day + H * 3600000000 + M * 60000000 + S * 1000000 + f)
      else Inl ValueError)"
| "datetime_of _ = Inl ValueError"

definition strptime :: "string \<Rightarrow> pyerr + datetime" where
  "strptime s = (case scan stime_format s of None \<Rightarrow> Inl ValueError | Some v \<Rightarrow> datetime_of v)"

section \<open>The topology\<close>

text \<open>
  \<^verbatim>\<open>topologies/mixed_big.py\<close>: the class \<^verbatim>\<open>Node\<close> and the module-level parameters. The
  durations, counts and ports are the integers the module assigns; \<^verbatim>\<open>probes_enabled\<close>
  is the integer that the program compares with \<^verbatim>\<open>True\<close>.
\<close>

record node =
  own_network :: string
  name :: string
  has_amplifiers :: bool
  has_bots :: bool
  victim_ip :: "string option"

record topology =
  nodelist :: "node list"
  amplifiers_per_node :: int
  bots_per_node :: int
  synthetic_interval :: int
  probes_enabled :: int
  probes_duration :: int
  probes_per_timestep :: int
  probes_dst_port :: int
  reflect_service_port :: int
  reflect_client_port :: int
  reflect_input_packets_per_flow :: int
  reflect_input_bytes_per_flow :: int
  reflect_output_packets_per_flow :: int
  reflect_output_bytes_per_flow :: int
  bot_dst_port :: int
  bot_output_packets_per_flow :: int
  bot_output_bytes_per_flow :: int
  flow_duration :: int

definition Node :: "string \<Rightarrow> string \<Rightarrow> bool \<Rightarrow> bool \<Rightarrow> string option \<Rightarrow> node" where
  "Node network nm amps bots victim =
     \<lparr>own_network = network, name = nm, has_amplifiers = amps, has_bots = bots,
      victim_ip = victim\<rparr>"

definition nodeA :: node where "nodeA = Node ''172.16'' ''A'' True True None"
definition nodeB :: node where "nodeB = Node ''172.17'' ''B'' True False None"
definition nodeC :: node where "nodeC = Node ''172.18'' ''C'' False True None"
definition nodeD :: node where "nodeD = Node ''172.19'' ''D'' False True None"
definition nodeE :: node where "nodeE = Node ''172.20'' ''E'' True False None"
definition nodeF :: node where "nodeF = Node ''172.21'' ''F'' False False (Some ''172.21.99.99'')"

definition mixed_big :: topology where
  "mixed_big =
     \<lparr>nodelist = [nodeA, nodeB, nodeC, nodeD, nodeE, nodeF],
      amplifiers_per_node = 5, bots_per_node = 10, synthetic_interval = 5,
      probes_enabled = 1, probes_duration = 5, probes_per_timestep = 5, probes_dst_port = 2323,
      reflect_service_port = 123, reflect_client_port = 80,
      reflect_input_packets_per_flow = 1, reflect_input_bytes_per_flow = 200,
      reflect_output_packets_per_flow = 300, reflect_output_bytes_per_flow = 200000,
      bot_dst_port = 53, bot_output_packets_per_flow = 20, bot_output_bytes_per_flow = 6000,
      flow_duration = 55\<rparr>"

section \<open>The generator\<close>

definition RESERVED_CLASS_A :: "int list" where
  "RESERVED_CLASS_A = [0, 10, 127, 172, 255]"

abbreviation (input) FIELD_SRCIP :: nat where "FIELD_SRCIP \<equiv> 0"
abbreviation (input) FIELD_DSTIP :: nat where "FIELD_DSTIP \<equiv> 1"
abbreviation (input) FIELD_SRCPORT :: nat where "FIELD_SRCPORT \<equiv> 2"
abbreviation (input) FIELD_DSTPORT :: nat where "FIELD_DSTPORT \<equiv> 3"
abbreviation (input) FIELD_PROTO :: nat where "FIELD_PROTO \<equiv> 4"
abbreviation (input) FIELD_PACKETS :: nat where "FIELD_PACKETS \<equiv> 5"
abbreviation (input) FIELD_BYTES :: nat where "FIELD_BYTES \<equiv> 6"
abbreviation (input) FIELD_FLAGS :: nat where "FIELD_FLAGS \<equiv> 7"
abbreviation (input) FIELD_STIME :: nat where "FIELD_STIME \<equiv> 8"
abbreviation (input) FIELD_DURATION :: nat where "FIELD_DURATION \<equiv> 9"
abbreviation (input) FIELD_ETIME :: nat where "FIELD_ETIME \<equiv> 10"
abbreviation (input) FIELD_SENSOR :: nat where "FIELD_SENSOR \<equiv> 11"
abbreviation (input) FIELD_TIMEDATE :: nat where "FIELD_TIMEDATE \<equiv> 12"

text \<open>
  The state of a \<^verbatim>\<open>FlowGen\<close> object and of what it writes. \<open>victim_node\<close> is \<open>None\<close>
  while the attribute is unassigned. \<open>rand\<close> is the tape of draws that \<^verbatim>\<open>random\<close> will
  deliver. A sink \<open>(n, True)\<close> is the file \<^verbatim>\<open>n.result_inbound\<close>, \<open>(n, False)\<close> is
  \<^verbatim>\<open>n.result_outbound\<close>; \<open>out\<close> lists, in order, every line written with the sink it
  went to, a line being its twelve fields before justification (\<open>rwcut_text\<close> gives
  the characters).
\<close>

type_synonym sink = "node \<times> bool"

record state =
  victim_node :: "node option"
  bot_portcount :: int
  rand :: "nat list"
  out :: "(sink \<times> string list) list"

text \<open>
  A \<^verbatim>\<open>for\<close> loop whose body may raise: the body is run on each element in turn and the
  first exception ends the loop. \<open>py_range n\<close> is \<^verbatim>\<open>range(0, n)\<close>.
\<close>

fun for_each :: "('a \<Rightarrow> 's \<Rightarrow> pyerr + 's) \<Rightarrow> 'a list \<Rightarrow> 's \<Rightarrow> pyerr + 's" where
  "for_each body [] s = Inr s"
| "for_each body (x # xs) s =
     (case body x s of Inl e \<Rightarrow> Inl e | Inr s' \<Rightarrow> for_each body xs s')"

definition py_range :: "int \<Rightarrow> int list" where
  "py_range n = map int [0..<nat n]"

subsection \<open>\<^verbatim>\<open>print_rwcut_line\<close>\<close>

text \<open>
  Every field but the flags is right-justified, which only a \<^verbatim>\<open>str\<close> can be; the flags
  field is printed as it is.
\<close>

definition field_text :: "pyval list \<Rightarrow> nat \<Rightarrow> pyerr + string" where
  "field_text flds i =
     (if length flds \<le> i then Inl IndexError
      else (case flds ! i of
              Str s \<Rightarrow> Inr s
            | DateTime t \<Rightarrow> if i = FIELD_FLAGS then Inr (str_datetime t) else Inl AttributeError
            | PyNone \<Rightarrow> if i = FIELD_FLAGS then Inr ''None'' else Inl AttributeError))"

fun collect_fields :: "pyval list \<Rightarrow> nat list \<Rightarrow> pyerr + string list" where
  "collect_fields flds [] = Inr []"
| "collect_fields flds (i # is) =
     (case field_text flds i of Inl e \<Rightarrow> Inl e
      | Inr s \<Rightarrow> (case collect_fields flds is of Inl e \<Rightarrow> Inl e | Inr ss \<Rightarrow> Inr (s # ss)))"

definition print_rwcut_line :: "pyval list \<Rightarrow> sink \<Rightarrow> state \<Rightarrow> pyerr + state" where
  "print_rwcut_line flds outfile st =
     (case collect_fields flds [0..<12] of Inl e \<Rightarrow> Inl e
      | Inr ss \<Rightarrow> Inr (st\<lparr>out := out st @ [(outfile, ss)]\<rparr>))"

definition rwcut_widths :: "nat list" where
  "rwcut_widths = [39, 39, 5, 5, 3, 10, 10, 0, 23, 9, 23, 3]"

definition rwcut_text :: "string list \<Rightarrow> string" where
  "rwcut_text ss =
     concat (map (\<lambda>i. rjust (rwcut_widths ! i) (ss ! i) @ ''|'') [0..<12]) @ [CHR 0x0A]"

subsection \<open>\<^verbatim>\<open>parse_line\<close>\<close>

definition strip_fields :: "string list \<Rightarrow> string list" where
  "strip_fields ps = map (\<lambda>i. if i = 7 then ps ! i else strip (ps ! i)) [0..<length ps]"

definition parse_line :: "string \<Rightarrow> pyerr + pyval list" where
  "parse_line line =
     (if length (split CHR ''|'' line) \<le> FIELD_STIME then Inl IndexError
      else if strip_fields (split CHR ''|'' line) ! FIELD_STIME \<noteq> ''sTime'' then
        (case strptime (strip_fields (split CHR ''|'' line) ! FIELD_STIME) of
           Inl e \<Rightarrow> Inl e
         | Inr t \<Rightarrow>
             if length (split CHR ''|'' line) \<le> FIELD_TIMEDATE then Inl IndexError
             else Inr ((map Str (strip_fields (split CHR ''|'' line)))[FIELD_TIMEDATE := DateTime t]))
      else Inr (map Str (strip_fields (split CHR ''|'' line))))"

subsection \<open>\<^verbatim>\<open>get_bot_src_port\<close>\<close>

definition get_bot_src_port :: "int list \<Rightarrow> state \<Rightarrow> pyerr + (string \<times> state)" where
  "get_bot_src_port digest st =
     (if length digest \<le> 10 then Inl IndexError
      else Inr (str_int (10000 +
                  (bot_portcount st + digest ! 2 + digest ! 3 + digest ! 4 + digest ! 5
                    + digest ! 6 + digest ! 7 + digest ! 8 + digest ! 9 + digest ! 10) mod 55536),
                st\<lparr>bot_portcount := bot_portcount st + 1\<rparr>))"

subsection \<open>\<^verbatim>\<open>random.randint\<close> and \<^verbatim>\<open>gen_rand_ip\<close>\<close>

text \<open>
  \<^verbatim>\<open>random.randint(a, b)\<close> raises on an empty range and otherwise consumes one draw
  \<open>r\<close> of the tape, which selects the value \<open>a + r mod (b - a + 1)\<close> of the range.
\<close>

definition randint :: "int \<Rightarrow> int \<Rightarrow> state \<Rightarrow> pyerr + (int \<times> state)" where
  "randint a b st =
     (if b < a then Inl ValueError
      else (case rand st of [] \<Rightarrow> Inl RandomExhausted
            | r # rs \<Rightarrow> Inr (a + int r mod (b - a + 1), st\<lparr>rand := rs\<rparr>)))"

text \<open>
  The loop of \<^verbatim>\<open>gen_rand_ip\<close> that draws \<^verbatim>\<open>randint(1, 255)\<close> until the octet is not
  reserved; it returns the octet and the rest of the tape.
\<close>

fun rand_octet1 :: "nat list \<Rightarrow> pyerr + (int \<times> nat list)" where
  "rand_octet1 [] = Inl RandomExhausted"
| "rand_octet1 (r # rs) =
     (if 1 + int r mod 255 \<in> set RESERVED_CLASS_A then rand_octet1 rs
      else Inr (1 + int r mod 255, rs))"

definition rand_prefix :: "string option \<Rightarrow> state \<Rightarrow> pyerr + (string \<times> state)" where
  "rand_prefix prefix st =
     (case prefix of
        Some p \<Rightarrow> Inr (p, st)
      | None \<Rightarrow>
          (case rand_octet1 (rand st) of Inl e \<Rightarrow> Inl e
           | Inr o1 \<Rightarrow>
               (case randint 1 255 (st\<lparr>rand := snd o1\<rparr>) of Inl e \<Rightarrow> Inl e
                | Inr o2 \<Rightarrow> Inr (str_int (fst o1) @ ''.'' @ str_int (fst o2), snd o2))))"

definition gen_rand_ip :: "string option \<Rightarrow> state \<Rightarrow> pyerr + (string \<times> state)" where
  "gen_rand_ip prefix st =
     (case rand_prefix prefix st of Inl e \<Rightarrow> Inl e
      | Inr p \<Rightarrow>
          (case randint 1 255 (snd p) of Inl e \<Rightarrow> Inl e
           | Inr o3 \<Rightarrow>
               (case randint 1 255 (snd o3) of Inl e \<Rightarrow> Inl e
                | Inr o4 \<Rightarrow>
                    Inr (fst p @ ''.'' @ str_int (fst o3) @ ''.'' @ str_int (fst o4), snd o4))))"

subsection \<open>The synthetic flows\<close>

text \<open>
  \<^verbatim>\<open>"{0}.{1}.{2}".format(prefix, digest[0], digest[1])\<close>, and \<^verbatim>\<open>'{0:.3f}'.format(n)\<close> for
  an integer \<open>n\<close> (of magnitude below \<open>2 ^ 53\<close>, which a float holds exactly).
\<close>

definition ip3 :: "string \<Rightarrow> int list \<Rightarrow> string" where
  "ip3 prefix digest = prefix @ ''.'' @ str_int (digest ! 0) @ ''.'' @ str_int (digest ! 1)"

definition fmt3 :: "int \<Rightarrow> string" where
  "fmt3 n = str_int n @ ''.000''"

definition opt_val :: "string option \<Rightarrow> pyval" where
  "opt_val v = (case v of None \<Rightarrow> PyNone | Some s \<Rightarrow> Str s)"

text \<open>
  The seven lines that every generator repeats: the offset in milliseconds and the
  duration in seconds become \<^verbatim>\<open>timedelta\<close>s, \<^verbatim>\<open>flowstart\<close> and \<^verbatim>\<open>flowend\<close> are computed
  from the start time, and the three time fields of \<^verbatim>\<open>synth\<close> are assigned.
\<close>

definition flow_times :: "pyval \<Rightarrow> int \<Rightarrow> int \<Rightarrow> pyval list \<Rightarrow> pyerr + pyval list" where
  "flow_times start_time ms dur synth =
     (case timedelta (1000 * ms) of Inl e \<Rightarrow> Inl e
      | Inr offset \<Rightarrow>
     (case timedelta (1000000 * dur) of Inl e \<Rightarrow> Inl e
      | Inr duration \<Rightarrow>
     (case add_delta start_time offset of Inl e \<Rightarrow> Inl e
      | Inr flowstart \<Rightarrow>
     (case add_delta (DateTime flowstart) duration of Inl e \<Rightarrow> Inl e
      | Inr flowend \<Rightarrow>
          if length synth \<le> FIELD_ETIME then Inl IndexError
          else Inr (synth[FIELD_STIME := Str (stamp flowstart),
                          FIELD_DURATION := Str (fmt3 dur),
                          FIELD_ETIME := Str (stamp flowend)])))))"

text \<open>\<^verbatim>\<open>gen_amplifiers\<close>: the body of the loop, then the loop on a copy of the record.\<close>

definition amplifier_fields ::
    "topology \<Rightarrow> bool \<Rightarrow> string \<Rightarrow> pyval \<Rightarrow> int \<Rightarrow> int \<Rightarrow> pyval list \<Rightarrow> pyval list" where
  "amplifier_fields T is_inbound amp_ip victim packets bytes synth =
     (if is_inbound then
        synth[FIELD_PROTO := Str ''17'', FIELD_FLAGS := Str ''        '',
              FIELD_SRCIP := victim, FIELD_DSTIP := Str amp_ip,
              FIELD_SRCPORT := Str (str_int (reflect_client_port T)),
              FIELD_DSTPORT := Str (str_int (reflect_service_port T)),
              FIELD_PACKETS := Str (str_int (reflect_input_packets_per_flow T + packets)),
              FIELD_BYTES := Str (str_int (reflect_input_bytes_per_flow T + bytes))]
      else
        synth[FIELD_PROTO := Str ''17'', FIELD_FLAGS := Str ''        '',
              FIELD_DSTIP := victim, FIELD_SRCIP := Str amp_ip,
              FIELD_DSTPORT := Str (str_int (reflect_client_port T)),
              FIELD_SRCPORT := Str (str_int (reflect_service_port T)),
              FIELD_PACKETS := Str (str_int (reflect_output_packets_per_flow T + packets)),
              FIELD_BYTES := Str (str_int (reflect_output_bytes_per_flow T + bytes))])"

definition amplifier_flow ::
    "topology \<Rightarrow> pyval \<Rightarrow> bool \<Rightarrow> node \<Rightarrow> sink \<Rightarrow> int \<Rightarrow> pyval list \<times> state
      \<Rightarrow> pyerr + pyval list \<times> state" where
  "amplifier_flow T start_time is_inbound node outfile ampid s =
     (case flow_times start_time (10 * (1 + ampid)) (flow_duration T) (fst s) of Inl e \<Rightarrow> Inl e
      | Inr synth \<Rightarrow>
     (case victim_node (snd s) of None \<Rightarrow> Inl AttributeError
      | Some victim \<Rightarrow>
     (case randint 0 (if is_inbound then reflect_input_packets_per_flow T
                      else reflect_output_packets_per_flow T) (snd s) of Inl e \<Rightarrow> Inl e
      | Inr packets \<Rightarrow>
     (case randint 0 (if is_inbound then reflect_input_bytes_per_flow T
                      else reflect_output_bytes_per_flow T) (snd packets) of Inl e \<Rightarrow> Inl e
      | Inr bytes \<Rightarrow>
     (case print_rwcut_line
             (amplifier_fields T is_inbound
                (ip3 (own_network node) (md5it (own_network node @ str_int ampid)))
                (opt_val (victim_ip victim)) (fst packets) (fst bytes) synth)
             outfile (snd bytes) of Inl e \<Rightarrow> Inl e
      | Inr st' \<Rightarrow>
          Inr (amplifier_fields T is_inbound
                 (ip3 (own_network node) (md5it (own_network node @ str_int ampid)))
                 (opt_val (victim_ip victim)) (fst packets) (fst bytes) synth, st'))))))"

definition gen_amplifiers ::
    "topology \<Rightarrow> pyval list \<Rightarrow> pyval \<Rightarrow> bool \<Rightarrow> node \<Rightarrow> sink \<Rightarrow> state \<Rightarrow> pyerr + state" where
  "gen_amplifiers T parsed start_time is_inbound node outfile st =
     (case for_each (amplifier_flow T start_time is_inbound node outfile)
             (py_range (amplifiers_per_node T)) (parsed, st) of
        Inl e \<Rightarrow> Inl e | Inr s \<Rightarrow> Inr (snd s))"

text \<open>\<^verbatim>\<open>gen_bots\<close>: nothing inbound; outbound, one flood record per bot.\<close>

definition bot_fields ::
    "topology \<Rightarrow> string \<Rightarrow> pyval \<Rightarrow> string \<Rightarrow> int \<Rightarrow> int \<Rightarrow> pyval list \<Rightarrow> pyval list" where
  "bot_fields T bot_ip victim src_port packets bytes synth =
     synth[FIELD_PROTO := Str ''17'', FIELD_FLAGS := Str ''        '',
           FIELD_SRCIP := Str bot_ip, FIELD_DSTIP := victim,
           FIELD_SRCPORT := Str src_port,
           FIELD_DSTPORT := Str (str_int (bot_dst_port T)),
           FIELD_PACKETS := Str (str_int (bot_output_packets_per_flow T + packets)),
           FIELD_BYTES := Str (str_int (bot_output_bytes_per_flow T + bytes))]"

definition bot_flow ::
    "topology \<Rightarrow> pyval \<Rightarrow> node \<Rightarrow> sink \<Rightarrow> int \<Rightarrow> pyval list \<times> state
      \<Rightarrow> pyerr + pyval list \<times> state" where
  "bot_flow T start_time node outfile botid s =
     (case flow_times start_time (10 * (1 + botid)) (flow_duration T) (fst s) of Inl e \<Rightarrow> Inl e
      | Inr synth \<Rightarrow>
     (case victim_node (snd s) of None \<Rightarrow> Inl AttributeError
      | Some victim \<Rightarrow>
     (case get_bot_src_port (md5it (own_network node @ str_int botid @ ''bot'')) (snd s) of
        Inl e \<Rightarrow> Inl e
      | Inr port \<Rightarrow>
     (case randint 0 (bot_output_packets_per_flow T) (snd port) of Inl e \<Rightarrow> Inl e
      | Inr packets \<Rightarrow>
     (case randint 0 (bot_output_bytes_per_flow T) (snd packets) of Inl e \<Rightarrow> Inl e
      | Inr bytes \<Rightarrow>
     (case print_rwcut_line
             (bot_fields T (ip3 (own_network node) (md5it (own_network node @ str_int botid @ ''bot'')))
                (opt_val (victim_ip victim)) (fst port) (fst packets) (fst bytes) synth)
             outfile (snd bytes) of Inl e \<Rightarrow> Inl e
      | Inr st' \<Rightarrow>
          Inr (bot_fields T (ip3 (own_network node) (md5it (own_network node @ str_int botid @ ''bot'')))
                 (opt_val (victim_ip victim)) (fst port) (fst packets) (fst bytes) synth, st')))))))"

definition gen_bots ::
    "topology \<Rightarrow> pyval list \<Rightarrow> pyval \<Rightarrow> bool \<Rightarrow> node \<Rightarrow> sink \<Rightarrow> state \<Rightarrow> pyerr + state" where
  "gen_bots T parsed start_time is_inbound node outfile st =
     (if is_inbound then Inr st
      else (case for_each (bot_flow T start_time node outfile)
                   (py_range (bots_per_node T)) (parsed, st) of
              Inl e \<Rightarrow> Inl e | Inr s \<Rightarrow> Inr (snd s)))"

text \<open>
  \<^verbatim>\<open>gen_victim\<close>: inbound only, the amplifier flows of every node with amplifiers and
  then the bot flows of every node with bots, all written to the victim's inbound file.
\<close>

definition victim_amplifier_flow ::
    "topology \<Rightarrow> pyval \<Rightarrow> node \<Rightarrow> int \<Rightarrow> pyval list \<times> state \<Rightarrow> pyerr + pyval list \<times> state" where
  "victim_amplifier_flow T start_time ampnode ampid s =
     (case flow_times start_time (10 * (1 + ampid)) (flow_duration T) (fst s) of Inl e \<Rightarrow> Inl e
      | Inr synth \<Rightarrow>
     (case victim_node (snd s) of None \<Rightarrow> Inl AttributeError
      | Some victim \<Rightarrow>
     (case randint 0 (reflect_output_packets_per_flow T) (snd s) of Inl e \<Rightarrow> Inl e
      | Inr packets \<Rightarrow>
     (case randint 0 (reflect_output_bytes_per_flow T) (snd packets) of Inl e \<Rightarrow> Inl e
      | Inr bytes \<Rightarrow>
     (case print_rwcut_line
             (synth[FIELD_PROTO := Str ''17'', FIELD_FLAGS := Str ''        '',
                    FIELD_DSTIP := opt_val (victim_ip victim),
                    FIELD_SRCIP := Str (ip3 (own_network ampnode)
                                      (md5it (own_network ampnode @ str_int ampid))),
                    FIELD_DSTPORT := Str (str_int (reflect_client_port T)),
                    FIELD_SRCPORT := Str (str_int (reflect_service_port T)),
                    FIELD_PACKETS := Str (str_int (reflect_output_packets_per_flow T + fst packets)),
                    FIELD_BYTES := Str (str_int (reflect_output_bytes_per_flow T + fst bytes))])
             (victim, True) (snd bytes) of Inl e \<Rightarrow> Inl e
      | Inr st' \<Rightarrow>
          Inr (synth[FIELD_PROTO := Str ''17'', FIELD_FLAGS := Str ''        '',
                     FIELD_DSTIP := opt_val (victim_ip victim),
                     FIELD_SRCIP := Str (ip3 (own_network ampnode)
                                       (md5it (own_network ampnode @ str_int ampid))),
                     FIELD_DSTPORT := Str (str_int (reflect_client_port T)),
                     FIELD_SRCPORT := Str (str_int (reflect_service_port T)),
                     FIELD_PACKETS := Str (str_int (reflect_output_packets_per_flow T + fst packets)),
                     FIELD_BYTES := Str (str_int (reflect_output_bytes_per_flow T + fst bytes))],
               st'))))))"

definition victim_bot_flow ::
    "topology \<Rightarrow> pyval \<Rightarrow> node \<Rightarrow> int \<Rightarrow> pyval list \<times> state \<Rightarrow> pyerr + pyval list \<times> state" where
  "victim_bot_flow T start_time botnode botid s =
     (case flow_times start_time (10 * (1 + botid)) (flow_duration T) (fst s) of Inl e \<Rightarrow> Inl e
      | Inr synth \<Rightarrow>
     (case victim_node (snd s) of None \<Rightarrow> Inl AttributeError
      | Some victim \<Rightarrow>
     (case get_bot_src_port (md5it (own_network botnode @ str_int botid @ ''bot'')) (snd s) of
        Inl e \<Rightarrow> Inl e
      | Inr port \<Rightarrow>
     (case randint 0 (bot_output_packets_per_flow T) (snd port) of Inl e \<Rightarrow> Inl e
      | Inr packets \<Rightarrow>
     (case randint 0 (bot_output_bytes_per_flow T) (snd packets) of Inl e \<Rightarrow> Inl e
      | Inr bytes \<Rightarrow>
     (case print_rwcut_line
             (synth[FIELD_PROTO := Str ''17'', FIELD_FLAGS := Str ''        '',
                    FIELD_SRCIP := Str (ip3 (own_network botnode)
                                      (md5it (own_network botnode @ str_int botid @ ''bot''))),
                    FIELD_DSTIP := opt_val (victim_ip victim),
                    FIELD_SRCPORT := Str (fst port),
                    FIELD_DSTPORT := Str (str_int (bot_dst_port T)),
                    FIELD_PACKETS := Str (str_int (bot_output_packets_per_flow T + fst packets)),
                    FIELD_BYTES := Str (str_int (bot_output_bytes_per_flow T + fst bytes))])
             (victim, True) (snd bytes) of Inl e \<Rightarrow> Inl e
      | Inr st' \<Rightarrow>
          Inr (synth[FIELD_PROTO := Str ''17'', FIELD_FLAGS := Str ''        '',
                     FIELD_SRCIP := Str (ip3 (own_network botnode)
                                       (md5it (own_network botnode @ str_int botid @ ''bot''))),
                     FIELD_DSTIP := opt_val (victim_ip victim),
                     FIELD_SRCPORT := Str (fst port),
                     FIELD_DSTPORT := Str (str_int (bot_dst_port T)),
                     FIELD_PACKETS := Str (str_int (bot_output_packets_per_flow T + fst packets)),
                     FIELD_BYTES := Str (str_int (bot_output_bytes_per_flow T + fst bytes))],
               st')))))))"

definition victim_amplifiers ::
    "topology \<Rightarrow> pyval \<Rightarrow> pyval list \<times> state \<Rightarrow> pyerr + pyval list \<times> state" where
  "victim_amplifiers T start_time s =
     for_each (\<lambda>ampnode s'. if has_amplifiers ampnode
                 then for_each (victim_amplifier_flow T start_time ampnode)
                        (py_range (amplifiers_per_node T)) s'
                 else Inr s') (nodelist T) s"

definition victim_bots ::
    "topology \<Rightarrow> pyval \<Rightarrow> pyval list \<times> state \<Rightarrow> pyerr + pyval list \<times> state" where
  "victim_bots T start_time s =
     for_each (\<lambda>botnode s'. if has_bots botnode
                 then for_each (victim_bot_flow T start_time botnode)
                        (py_range (bots_per_node T)) s'
                 else Inr s') (nodelist T) s"

definition gen_victim :: "topology \<Rightarrow> pyval list \<Rightarrow> pyval \<Rightarrow> bool \<Rightarrow> state \<Rightarrow> pyerr + state" where
  "gen_victim T parsed start_time is_inbound st =
     (if is_inbound then
        (case victim_amplifiers T start_time (parsed, st) of Inl e \<Rightarrow> Inl e
         | Inr s1 \<Rightarrow>
             (case victim_bots T start_time s1 of Inl e \<Rightarrow> Inl e | Inr s2 \<Rightarrow> Inr (snd s2)))
      else Inr st)"

text \<open>\<^verbatim>\<open>gen_probes\<close>: inbound only, one TCP SYN record per probe.\<close>

definition probe_fields ::
    "topology \<Rightarrow> string \<Rightarrow> string \<Rightarrow> int \<Rightarrow> pyval list \<Rightarrow> pyval list" where
  "probe_fields T src dst src_port synth =
     synth[FIELD_PROTO := Str ''6'', FIELD_FLAGS := Str '' S      '',
           FIELD_SRCIP := Str src, FIELD_DSTIP := Str dst,
           FIELD_SRCPORT := Str (str_int src_port),
           FIELD_DSTPORT := Str (str_int (probes_dst_port T)),
           FIELD_PACKETS := Str (str_int (1 + probes_duration T)),
           FIELD_BYTES := Str (str_int (64 * (1 + probes_duration T)))]"

definition probe_flow ::
    "topology \<Rightarrow> pyval \<Rightarrow> node \<Rightarrow> sink \<Rightarrow> int \<Rightarrow> pyval list \<times> state
      \<Rightarrow> pyerr + pyval list \<times> state" where
  "probe_flow T start_time node outfile probe s =
     (case flow_times start_time (15 * (1 + probe)) (probes_duration T) (fst s) of Inl e \<Rightarrow> Inl e
      | Inr synth \<Rightarrow>
     (case gen_rand_ip None (snd s) of Inl e \<Rightarrow> Inl e
      | Inr src \<Rightarrow>
     (case gen_rand_ip (Some (own_network node)) (snd src) of Inl e \<Rightarrow> Inl e
      | Inr dst \<Rightarrow>
     (case randint 49152 65535 (snd dst) of Inl e \<Rightarrow> Inl e
      | Inr port \<Rightarrow>
     (case print_rwcut_line (probe_fields T (fst src) (fst dst) (fst port) synth)
             outfile (snd port) of Inl e \<Rightarrow> Inl e
      | Inr st' \<Rightarrow> Inr (probe_fields T (fst src) (fst dst) (fst port) synth, st'))))))"

definition gen_probes ::
    "topology \<Rightarrow> pyval list \<Rightarrow> pyval \<Rightarrow> bool \<Rightarrow> node \<Rightarrow> sink \<Rightarrow> state \<Rightarrow> pyerr + state" where
  "gen_probes T parsed start_time is_inbound node outfile st =
     (if is_inbound then
        (case for_each (probe_flow T start_time node outfile)
                (py_range (probes_per_timestep T)) (parsed, st) of
           Inl e \<Rightarrow> Inl e | Inr s \<Rightarrow> Inr (snd s))
      else Inr st)"

subsection \<open>\<^verbatim>\<open>rewrite\<close>\<close>

text \<open>
  The \<^verbatim>\<open>while\<close> loop that looks for a digest byte outside the reserved values: it
  scans the bytes from position \<open>pos\<close>, and reading past the last byte is an IndexError.
\<close>

fun find_pos :: "int list \<Rightarrow> nat \<Rightarrow> pyerr + nat" where
  "find_pos [] pos = Inl IndexError"
| "find_pos (b # bs) pos =
     (if b \<in> set RESERVED_CLASS_A then find_pos bs (pos + 1) else Inr pos)"

definition ip4 :: "int list \<Rightarrow> nat \<Rightarrow> string" where
  "ip4 digest pos =
     str_int (digest ! pos) @ ''.'' @ str_int (digest ! (pos + 1)) @ ''.''
       @ str_int (digest ! (pos + 2)) @ ''.'' @ str_int (digest ! (pos + 3))"

definition internalfield :: "bool \<Rightarrow> nat" where
  "internalfield is_inbound = (if is_inbound then FIELD_DSTIP else FIELD_SRCIP)"

definition externalfield :: "bool \<Rightarrow> nat" where
  "externalfield is_inbound = (if is_inbound then FIELD_SRCIP else FIELD_DSTIP)"

text \<open>
  The address rewriting of \<^verbatim>\<open>rewrite\<close>, in place on the list it is given: the result is
  that list after the two assignments. A first field equal to \<^verbatim>\<open>'sIP'\<close> marks a header,
  which is left as it is.
\<close>

definition external_ip :: "pyval \<Rightarrow> node \<Rightarrow> pyerr + string" where
  "external_ip v node =
     (case v of
        Str a \<Rightarrow>
          (case find_pos (md5it (a @ name node)) 0 of Inl e \<Rightarrow> Inl e
           | Inr pos \<Rightarrow>
               if length (md5it (a @ name node)) \<le> pos + 3 then Inl IndexError
               else Inr (ip4 (md5it (a @ name node)) pos))
      | DateTime t \<Rightarrow> Inl TypeError
      | PyNone \<Rightarrow> Inl TypeError)"

definition anonymize :: "pyval list \<Rightarrow> bool \<Rightarrow> node \<Rightarrow> pyerr + pyval list" where
  "anonymize parsed is_inbound node =
     (if length parsed \<le> FIELD_SRCIP then Inl IndexError
      else if parsed ! FIELD_SRCIP \<noteq> Str ''sIP'' then
        (if length parsed \<le> internalfield is_inbound then Inl IndexError
         else (case parsed ! internalfield is_inbound of
                 Str a \<Rightarrow>
                   if length parsed \<le> externalfield is_inbound then Inl IndexError
                   else
                   (case external_ip
                           (parsed[internalfield is_inbound := Str (ip3 (own_network node) (md5it a))]
                              ! externalfield is_inbound) node of
                      Inl e \<Rightarrow> Inl e
                    | Inr ext \<Rightarrow>
                        Inr (parsed[internalfield is_inbound := Str (ip3 (own_network node) (md5it a)),
                                    externalfield is_inbound := Str ext]))
               | DateTime t \<Rightarrow> Inl AttributeError
               | PyNone \<Rightarrow> Inl AttributeError))
      else Inr parsed)"

text \<open>
  The second half of \<^verbatim>\<open>rewrite\<close>, run when \<^verbatim>\<open>add_attack\<close> holds. The source compares
  the node with \<^verbatim>\<open>self.victim_node\<close> by identity; the nodes of a topology are told
  apart by their fields here.
\<close>

definition synthesize ::
    "topology \<Rightarrow> pyval list \<Rightarrow> bool \<Rightarrow> node \<Rightarrow> sink \<Rightarrow> state \<Rightarrow> pyerr + state" where
  "synthesize T parsed is_inbound node outfile st =
     (if length parsed \<le> FIELD_TIMEDATE then Inl IndexError
      else
     (case (if has_amplifiers node
            then gen_amplifiers T parsed (parsed ! FIELD_TIMEDATE) is_inbound node outfile st
            else Inr st) of Inl e \<Rightarrow> Inl e
      | Inr st1 \<Rightarrow>
     (case (if has_bots node
            then gen_bots T parsed (parsed ! FIELD_TIMEDATE) is_inbound node outfile st1
            else Inr st1) of Inl e \<Rightarrow> Inl e
      | Inr st2 \<Rightarrow>
     (case victim_node st2 of None \<Rightarrow> Inl AttributeError
      | Some victim \<Rightarrow>
     (case (if node = victim
            then gen_victim T parsed (parsed ! FIELD_TIMEDATE) is_inbound st2
            else Inr st2) of Inl e \<Rightarrow> Inl e
      | Inr st3 \<Rightarrow>
          if probes_enabled T = 1
          then gen_probes T parsed (parsed ! FIELD_TIMEDATE) is_inbound node outfile st3
          else Inr st3)))))"

text \<open>
  \<^verbatim>\<open>rewrite\<close> returns nothing; what it leaves behind is the list \<^verbatim>\<open>parsed\<close>, which it
  has assigned to, and the state. Both are the result here.
\<close>

definition rewrite ::
    "topology \<Rightarrow> pyval list \<Rightarrow> bool \<Rightarrow> node \<Rightarrow> bool \<Rightarrow> state \<Rightarrow> pyerr + pyval list \<times> state" where
  "rewrite T parsed is_inbound node add_attack st =
     (case anonymize parsed is_inbound node of Inl e \<Rightarrow> Inl e
      | Inr parsed' \<Rightarrow>
     (case print_rwcut_line parsed' (node, is_inbound) st of Inl e \<Rightarrow> Inl e
      | Inr st1 \<Rightarrow>
          if add_attack then
            (case synthesize T parsed' is_inbound node (node, is_inbound) st1 of Inl e \<Rightarrow> Inl e
             | Inr st2 \<Rightarrow> Inr (parsed', st2))
          else Inr (parsed', st1)))"

subsection \<open>\<^verbatim>\<open>foreach_noise\<close>, \<^verbatim>\<open>run\<close> and the constructor\<close>

text \<open>
  The inner loop of \<^verbatim>\<open>foreach_noise\<close> hands the one list \<^verbatim>\<open>parsed\<close> to \<^verbatim>\<open>rewrite\<close> for
  each node in turn, so each call starts from the list as the call before left it.
\<close>

definition rewrite_nodes ::
    "topology \<Rightarrow> bool \<Rightarrow> bool \<Rightarrow> node list \<Rightarrow> pyval list \<times> state \<Rightarrow> pyerr + pyval list \<times> state" where
  "rewrite_nodes T is_inbound add_attack nodes s =
     for_each (\<lambda>node s'. rewrite T (fst s') is_inbound node add_attack (snd s')) nodes s"

fun noise_lines :: "topology \<Rightarrow> bool \<Rightarrow> int \<Rightarrow> string list \<Rightarrow> state \<Rightarrow> pyerr + state" where
  "noise_lines T is_inbound counter [] st = Inr st"
| "noise_lines T is_inbound counter (line # rest) st =
     (case parse_line line of Inl e \<Rightarrow> Inl e
      | Inr parsed \<Rightarrow>
          (case rewrite_nodes T is_inbound (synthetic_interval T < counter) (nodelist T)
                  (parsed, st) of Inl e \<Rightarrow> Inl e
           | Inr s \<Rightarrow>
               noise_lines T is_inbound
                 (if synthetic_interval T < counter then 1 else counter + 1) rest (snd s)))"

definition foreach_noise :: "topology \<Rightarrow> string list \<Rightarrow> bool \<Rightarrow> state \<Rightarrow> pyerr + state" where
  "foreach_noise T noisefile is_inbound st = noise_lines T is_inbound 0 noisefile st"






section \<open>Notions used in the statements\<close>

text \<open>
  The value of \<^verbatim>\<open>counter\<close> at the top of iteration \<open>k\<close> (from 0) of the loop of
  \<^verbatim>\<open>foreach_noise\<close> for the interval \<open>I\<close>, and the value that \<^verbatim>\<open>add_attack\<close> takes in
  that iteration. \<open>marked_lines\<close> is the loop with the marks given line by line.
  \<open>frame st st'\<close>: \<open>st'\<close> has the victim node of \<open>st\<close> and its output extended.
\<close>

fun counter_at :: "int \<Rightarrow> nat \<Rightarrow> int" where
  "counter_at I 0 = 0"
| "counter_at I (Suc k) = (if I < counter_at I k then 1 else counter_at I k + 1)"

definition add_attack_at :: "int \<Rightarrow> nat \<Rightarrow> bool" where
  "add_attack_at I k = (I < counter_at I k)"

fun marked_lines :: "topology \<Rightarrow> bool \<Rightarrow> (string \<times> bool) list \<Rightarrow> state \<Rightarrow> pyerr + state" where
  "marked_lines T is_inbound [] st = Inr st"
| "marked_lines T is_inbound (l # rest) st =
     (case parse_line (fst l) of Inl e \<Rightarrow> Inl e
      | Inr parsed \<Rightarrow>
          (case rewrite_nodes T is_inbound (snd l) (nodelist T) (parsed, st) of Inl e \<Rightarrow> Inl e
           | Inr s \<Rightarrow> marked_lines T is_inbound rest (snd s)))"

definition frame :: "state \<Rightarrow> state \<Rightarrow> bool" where
  "frame st st' = (victim_node st' = victim_node st \<and> (\<exists>es. out st' = out st @ es))"

text \<open>
  Concrete inputs: a record of the noise files (an inbound flow from 10.1.1.135), the
  header line of a \<^verbatim>\<open>rwcut\<close> dump, the state a fresh generator has when no node is a
  victim, and the shipped topology cut down to its first two nodes.
\<close>

definition line1 :: string where
  "line1 = ''10.1.1.135|93.184.216.34|1234|80|6|3|180| S      |2024/01/01T00:00:00.000|0.010|2024/01/01T00:00:00.010|S0|'' @ [CHR 0x0A]"

definition header_line :: string where
  "header_line = ''                                    sIP|                                    dIP|sPort|dPort|pro|   packets|     bytes|   flags|                  sTime| duration|                  eTime|sen|'' @ [CHR 0x0A]"

definition st_none :: state where
  "st_none = \<lparr>victim_node = None, bot_portcount = 0, rand = [], out = []\<rparr>"

definition two_nodes :: topology where
  "two_nodes = mixed_big\<lparr>nodelist := [nodeA, nodeB]\<rparr>"


text \<open>
  \<open>record1\<close> is what \<^verbatim>\<open>parse_line\<close> returns for \<open>line1\<close>, \<open>header_record\<close> what it
  returns for the header line; \<open>st_F\<close> is the state of a fresh generator whose victim
  is node F. \<open>none_reserved d p\<close>: none of the four bytes of \<open>d\<close> from position \<open>p\<close>
  is a reserved value.
\<close>

definition record1 :: "pyval list" where
  "record1 = [Str ''10.1.1.135'', Str ''93.184.216.34'', Str ''1234'', Str ''80'', Str ''6'',
     Str ''3'', Str ''180'', Str '' S      '', Str ''2024/01/01T00:00:00.000'', Str ''0.010'',
     Str ''2024/01/01T00:00:00.010'', Str ''S0'', DateTime 63839664000000000]"

definition record1A :: "pyval list" where
  "record1A = record1[FIELD_SRCIP := Str ''39.177.250.0'', FIELD_DSTIP := Str ''172.16.164.108'']"

definition fields1A :: "string list" where
  "fields1A = [''39.177.250.0'', ''172.16.164.108'', ''1234'', ''80'', ''6'', ''3'', ''180'',
     '' S      '', ''2024/01/01T00:00:00.000'', ''0.010'', ''2024/01/01T00:00:00.010'', ''S0'']"

definition record1AB :: "pyval list" where
  "record1AB = record1[FIELD_SRCIP := Str ''135.248.193.185'', FIELD_DSTIP := Str ''172.17.43.136'']"

definition fields1AB :: "string list" where
  "fields1AB = [''135.248.193.185'', ''172.17.43.136'', ''1234'', ''80'', ''6'', ''3'', ''180'',
     '' S      '', ''2024/01/01T00:00:00.000'', ''0.010'', ''2024/01/01T00:00:00.010'', ''S0'']"

definition record1B :: "pyval list" where
  "record1B = record1[FIELD_SRCIP := Str ''5.189.245.69'', FIELD_DSTIP := Str ''172.17.164.108'']"

definition fields1B :: "string list" where
  "fields1B = [''5.189.245.69'', ''172.17.164.108'', ''1234'', ''80'', ''6'', ''3'', ''180'',
     '' S      '', ''2024/01/01T00:00:00.000'', ''0.010'', ''2024/01/01T00:00:00.010'', ''S0'']"

definition header_fields :: "string list" where
  "header_fields = [''sIP'', ''dIP'', ''sPort'', ''dPort'', ''pro'', ''packets'', ''bytes'',
     ''   flags'', ''sTime'', ''duration'', ''eTime'', ''sen'']"

definition header_record :: "pyval list" where
  "header_record = [Str ''sIP'', Str ''dIP'', Str ''sPort'', Str ''dPort'', Str ''pro'',
     Str ''packets'', Str ''bytes'', Str ''   flags'', Str ''sTime'', Str ''duration'',
     Str ''eTime'', Str ''sen'', Str []]"

definition st_F :: state where
  "st_F = \<lparr>victim_node = Some nodeF, bot_portcount = 0, rand = [], out = []\<rparr>"

definition none_reserved :: "int list \<Rightarrow> nat \<Rightarrow> bool" where
  "none_reserved d p =
     (d ! p \<notin> set RESERVED_CLASS_A \<and> d ! (p + 1) \<notin> set RESERVED_CLASS_A
      \<and> d ! (p + 2) \<notin> set RESERVED_CLASS_A \<and> d ! (p + 3) \<notin> set RESERVED_CLASS_A)"

text \<open>
  The address of amplifier \<open>i\<close> and of bot \<open>i\<close> of a network, as the topology describes
  them: the prefix and the first two bytes of the digest of the prefix followed by the
  index (and by \<^verbatim>\<open>bot\<close>). \<open>bot_port\<close> is the source port of a bot for a counter value
  and a digest, \<open>bot_ports\<close> the ports of successive emissions. \<open>octets4\<close> and
  \<open>octets2\<close> describe the addresses of a probe, \<open>probe_line\<close> a probe record, and
  \<open>timed d\<close> a line whose end time is its start time plus the duration \<open>d\<close> it shows.
\<close>

definition amp_address :: "string \<Rightarrow> int \<Rightarrow> string" where
  "amp_address prefix i =
     prefix @ ''.'' @ str_int (md5it (prefix @ str_int i) ! 0) @ ''.''
       @ str_int (md5it (prefix @ str_int i) ! 1)"

definition bot_address :: "string \<Rightarrow> int \<Rightarrow> string" where
  "bot_address prefix i =
     prefix @ ''.'' @ str_int (md5it (prefix @ str_int i @ ''bot'') ! 0) @ ''.''
       @ str_int (md5it (prefix @ str_int i @ ''bot'') ! 1)"

definition bot_port :: "int \<Rightarrow> int list \<Rightarrow> string" where
  "bot_port counter d =
     str_int (10000 + (counter + d ! 2 + d ! 3 + d ! 4 + d ! 5 + d ! 6 + d ! 7 + d ! 8 + d ! 9
                         + d ! 10) mod 55536)"

fun bot_ports :: "int \<Rightarrow> int list list \<Rightarrow> string list" where
  "bot_ports counter [] = []"
| "bot_ports counter (d # ds) = bot_port counter d # bot_ports (counter + 1) ds"

definition octets4 :: "string \<Rightarrow> bool" where
  "octets4 a = (\<exists>o1 o2 o3 o4. a = str_int o1 @ ''.'' @ str_int o2 @ ''.'' @ str_int o3 @ ''.'' @ str_int o4
      \<and> o1 \<notin> set RESERVED_CLASS_A \<and> 1 \<le> o1 \<and> o1 \<le> 255 \<and> 1 \<le> o2 \<and> o2 \<le> 255
      \<and> 1 \<le> o3 \<and> o3 \<le> 255 \<and> 1 \<le> o4 \<and> o4 \<le> 255)"

definition octets2 :: "string \<Rightarrow> string \<Rightarrow> bool" where
  "octets2 prefix a = (\<exists>o3 o4. a = prefix @ ''.'' @ str_int o3 @ ''.'' @ str_int o4
      \<and> 1 \<le> o3 \<and> o3 \<le> 255 \<and> 1 \<le> o4 \<and> o4 \<le> 255)"

definition probe_line :: "node \<Rightarrow> sink \<Rightarrow> sink \<times> string list \<Rightarrow> bool" where
  "probe_line node outfile e =
     (fst e = outfile \<and> snd e ! FIELD_PROTO = ''6'' \<and> snd e ! FIELD_FLAGS = '' S      ''
      \<and> octets4 (snd e ! FIELD_SRCIP) \<and> octets2 (own_network node) (snd e ! FIELD_DSTIP))"

definition timed :: "int \<Rightarrow> string list \<Rightarrow> bool" where
  "timed d ss = (\<exists>t. ss ! FIELD_STIME = stamp t \<and> ss ! FIELD_DURATION = fmt3 d
                   \<and> ss ! FIELD_ETIME = stamp (t + 1000000 * d))"



text \<open>
  \<open>first_octet a\<close> is the number that the address \<open>a\<close> shows before its first dot.
\<close>

definition first_octet :: "string \<Rightarrow> int" where
  "first_octet a = num_val (takeWhile (\<lambda>c. c \<noteq> CHR ''.'') a)"

text \<open>
  A small topology for running the generators: the shipped one with the nodes A and F
  (the victim), one amplifier and two bots per node and one probe per step. \<open>start1\<close>
  is the start time of \<open>record1\<close>, \<open>st_c c tape es\<close> a state of a generator whose
  victim is node F, and the lists of fields are the lines that the generators write.
\<close>

definition small :: topology where
  "small = mixed_big\<lparr>nodelist := [nodeA, nodeF], amplifiers_per_node := 1, bots_per_node := 2,
     probes_per_timestep := 1\<rparr>"

definition start1 :: pyval where
  "start1 = DateTime 63839664000000000"

definition st_c :: "int \<Rightarrow> nat list \<Rightarrow> (sink \<times> string list) list \<Rightarrow> state" where
  "st_c c tape es = \<lparr>victim_node = Some nodeF, bot_portcount = c, rand = tape, out = es\<rparr>"

definition ampA_in :: "string list" where
  "ampA_in = [''172.21.99.99'', ''172.16.10.13'', ''80'', ''123'', ''17'', ''2'', ''207'',
     ''        '', ''2024/01/01T00:00:00.010'', ''55.000'', ''2024/01/01T00:00:55.010'', ''S0'']"

definition ampA_out :: "string list" where
  "ampA_out = [''172.16.10.13'', ''172.21.99.99'', ''123'', ''80'', ''17'', ''303'', ''200007'',
     ''        '', ''2024/01/01T00:00:00.010'', ''55.000'', ''2024/01/01T00:00:55.010'', ''S0'']"

definition botA0 :: "string list" where
  "botA0 = [''172.16.224.103'', ''172.21.99.99'', ''11108'', ''53'', ''17'', ''21'', ''6002'',
     ''        '', ''2024/01/01T00:00:00.010'', ''55.000'', ''2024/01/01T00:00:55.010'', ''S0'']"

definition botA1 :: "string list" where
  "botA1 = [''172.16.97.67'', ''172.21.99.99'', ''10985'', ''53'', ''17'', ''23'', ''6004'',
     ''        '', ''2024/01/01T00:00:00.020'', ''55.000'', ''2024/01/01T00:00:55.020'', ''S0'']"

definition probeF :: "string list" where
  "probeF = [''45.1.2.3'', ''172.21.4.5'', ''50152'', ''2323'', ''6'', ''6'', ''384'',
     '' S      '', ''2024/01/01T00:00:00.015'', ''5.000'', ''2024/01/01T00:00:05.015'', ''S0'']"

section \<open>What every step leaves unchanged\<close>

lemma frame_refl [simp]: "frame st st"
  by (simp add: frame_def)

lemma frame_trans: "frame a b \<Longrightarrow> frame b c \<Longrightarrow> frame a c"
  by (auto simp: frame_def)

lemma for_each_frame:
  assumes "for_each body xs s = Inr s'"
    and "\<And>x a b. x \<in> set xs \<Longrightarrow> body x a = Inr b \<Longrightarrow> frame (snd a) (snd b)"
  shows "frame (snd s) (snd s')"
  using assms
proof (induction xs arbitrary: s)
  case Nil
  then show ?case by simp
next
  case (Cons x xs)
  from Cons.prems(1) obtain m where m: "body x s = Inr m" and r: "for_each body xs m = Inr s'"
    by (auto split: sum.splits)
  have "frame (snd s) (snd m)" by (rule Cons.prems(2) [OF _ m]) simp
  moreover have "frame (snd m) (snd s')" by (rule Cons.IH [OF r]) (auto intro: Cons.prems(2))
  ultimately show ?case by (rule frame_trans)
qed

lemma print_frame: "print_rwcut_line flds outfile st = Inr st' \<Longrightarrow> frame st st'"
  by (auto simp: print_rwcut_line_def frame_def split: sum.splits)

lemma randint_frame: "randint a b st = Inr r \<Longrightarrow> frame st (snd r)"
  by (auto simp: randint_def frame_def split: if_splits list.splits)

lemma port_frame: "get_bot_src_port d st = Inr r \<Longrightarrow> frame st (snd r)"
  by (auto simp: get_bot_src_port_def frame_def split: if_splits)

lemma rand_prefix_frame: "rand_prefix p st = Inr r \<Longrightarrow> frame st (snd r)"
  by (auto simp: rand_prefix_def frame_def randint_def split: option.splits sum.splits if_splits list.splits)

lemma gen_rand_ip_frame: "gen_rand_ip p st = Inr r \<Longrightarrow> frame st (snd r)"
  unfolding gen_rand_ip_def
  by (auto split: sum.splits dest!: rand_prefix_frame randint_frame simp: frame_def)

lemma amplifier_flow_frame:
  "amplifier_flow T start inb node outf i s = Inr s' \<Longrightarrow> frame (snd s) (snd s')"
  unfolding amplifier_flow_def
  by (auto split: sum.splits option.splits dest!: print_frame randint_frame simp: frame_def)

lemma bot_flow_frame:
  "bot_flow T start node outf i s = Inr s' \<Longrightarrow> frame (snd s) (snd s')"
  unfolding bot_flow_def
  by (auto split: sum.splits option.splits dest!: print_frame randint_frame port_frame simp: frame_def)

lemma victim_amplifier_flow_frame:
  "victim_amplifier_flow T start node i s = Inr s' \<Longrightarrow> frame (snd s) (snd s')"
  unfolding victim_amplifier_flow_def
  by (auto split: sum.splits option.splits dest!: print_frame randint_frame simp: frame_def)

lemma victim_bot_flow_frame:
  "victim_bot_flow T start node i s = Inr s' \<Longrightarrow> frame (snd s) (snd s')"
  unfolding victim_bot_flow_def
  by (auto split: sum.splits option.splits dest!: print_frame randint_frame port_frame simp: frame_def)

lemma probe_flow_frame:
  "probe_flow T start node outf i s = Inr s' \<Longrightarrow> frame (snd s) (snd s')"
  unfolding probe_flow_def
  by (auto split: sum.splits dest!: print_frame randint_frame gen_rand_ip_frame simp: frame_def)


lemma for_each_flow_frame:
  assumes "for_each body xs s = Inr s'"
    and "\<And>x a b. body x a = Inr b \<Longrightarrow> frame (snd a) (snd b)"
  shows "frame (snd s) (snd s')"
  using assms(1) by (rule for_each_frame) (rule assms(2))

lemma gen_amplifiers_frame:
  "gen_amplifiers T parsed start inb node outf st = Inr st' \<Longrightarrow> frame st st'"
  unfolding gen_amplifiers_def
  by (auto split: sum.splits dest!: for_each_flow_frame [OF _ amplifier_flow_frame])

lemma gen_bots_frame:
  "gen_bots T parsed start inb node outf st = Inr st' \<Longrightarrow> frame st st'"
  unfolding gen_bots_def
  by (auto split: sum.splits if_splits dest!: for_each_flow_frame [OF _ bot_flow_frame])

lemma gen_probes_frame:
  "gen_probes T parsed start inb node outf st = Inr st' \<Longrightarrow> frame st st'"
  unfolding gen_probes_def
  by (auto split: sum.splits if_splits dest!: for_each_flow_frame [OF _ probe_flow_frame])

lemma victim_amplifiers_frame:
  "victim_amplifiers T start s = Inr s' \<Longrightarrow> frame (snd s) (snd s')"
  unfolding victim_amplifiers_def
  by (erule for_each_frame)
     (auto split: if_splits dest!: for_each_flow_frame [OF _ victim_amplifier_flow_frame])

lemma victim_bots_frame:
  "victim_bots T start s = Inr s' \<Longrightarrow> frame (snd s) (snd s')"
  unfolding victim_bots_def
  by (erule for_each_frame)
     (auto split: if_splits dest!: for_each_flow_frame [OF _ victim_bot_flow_frame])

lemma gen_victim_frame:
  "gen_victim T parsed start inb st = Inr st' \<Longrightarrow> frame st st'"
  unfolding gen_victim_def
  by (auto split: sum.splits if_splits dest!: victim_amplifiers_frame victim_bots_frame
        intro: frame_trans)

lemma synthesize_frame:
  "synthesize T parsed inb node outf st = Inr st' \<Longrightarrow> frame st st'"
  unfolding synthesize_def
  by (auto split: sum.splits option.splits if_splits
        dest!: gen_amplifiers_frame gen_bots_frame gen_victim_frame gen_probes_frame
        simp: frame_def)



section \<open>Evaluation at concrete inputs\<close>

text \<open>
  Rules that let the simplifier run the definitions on numerals and literal strings,
  the digests of the strings met below, and the parse of the record \<open>line1\<close>.
\<close>

lemma upt_0_num: "[0..<numeral n] = 0 # [Suc 0..<numeral n]"
  by (subst upt_rec) simp

lemma upt_1_num: "[Suc 0..<numeral n] = (if Suc 0 < numeral n then Suc 0 # [2..<numeral n] else [])"
  unfolding numeral_2_eq_2 by (rule upt_rec)

lemmas md5_eval = md5it_def md5_def md5_pad_def md5_block_def md5_F_def md5_g_def md5_K_def
  md5_S_def rotl32_def add32_def not32_def word_bytes_def chunks_def upt_0_num upt_1_num

lemmas str_eval = str_int_def digits.simps digit_char_def ip3_def ip4_def fmt3_def

lemmas dt_eval = upt_0_num upt_1_num zpad_def digit_char_def str_int_def digits.simps is_leap_def days_before_year_def
  days_in_month_def days_before_month_def ymd2ord_def o2_n400_def o2_n100_def o2_n4_def o2_n1_def
  o2_rest_def o2_year_def o2_leap_def o2_preceding_def o2_month_def ord2ymd_def us_per_day_def
  dt_limit_def timedelta_def strftime_def stamp_def str_datetime_def is_digit_def digit_val_def
  num_val_def stime_format_def strptime_def

lemma length_md5it: "length (md5it s) = 16"
  by (cases "foldl md5_block (0x67452301, 0xefcdab89, 0x98badcfe, 0x10325476)
        (chunks 64 (md5_pad (map of_char s)))")
     (simp add: md5it_def md5_def word_bytes_def)

lemma dg0: "md5it ''93.184.216.34'' = [164, 108, 207, 2, 129, 237, 174, 145, 48, 12, 143, 144, 157, 218, 114, 62]"
  by (simp add: md5_eval)

lemma dg1: "md5it ''10.1.1.135A'' = [255, 39, 177, 250, 0, 32, 67, 148, 58, 111, 95, 196, 181, 47, 244, 149]"
  by (simp add: md5_eval)

lemma split_line1: "split CHR ''|'' line1 =
  [''10.1.1.135'', ''93.184.216.34'', ''1234'', ''80'', ''6'', ''3'', ''180'', '' S      '',
   ''2024/01/01T00:00:00.000'', ''0.010'', ''2024/01/01T00:00:00.010'', ''S0'', [CHR 0x0A]]"
  by (simp add: line1_def)

lemma strip_line1: "strip_fields (split CHR ''|'' line1) =
  [''10.1.1.135'', ''93.184.216.34'', ''1234'', ''80'', ''6'', ''3'', ''180'', '' S      '',
   ''2024/01/01T00:00:00.000'', ''0.010'', ''2024/01/01T00:00:00.010'', ''S0'', []]"
  by (simp add: split_line1 strip_fields_def strip_def is_space_def upt_0_num upt_1_num)

lemma strptime_line1: "strptime ''2024/01/01T00:00:00.000'' = Inr 63839664000000000"
  by (simp add: dt_eval)

lemma parse_line1: "parse_line line1 = Inr record1"
  by (simp add: parse_line_def strip_line1 strptime_line1 record1_def) (simp add: split_line1)

lemma anonymize1: "anonymize record1 True nodeA = Inr record1A"
  by (simp add: anonymize_def record1_def record1A_def internalfield_def externalfield_def
      external_ip_def nodeA_def Node_def dg0 dg1 RESERVED_CLASS_A_def str_eval)

lemma print1: "print_rwcut_line record1A k st = Inr (st\<lparr>out := out st @ [(k, fields1A)]\<rparr>)"
  by (simp add: print_rwcut_line_def record1_def record1A_def fields1A_def field_text_def
      upt_0_num upt_1_num)

lemma rewrite1:
  "rewrite T record1 True nodeA False st
     = Inr (record1A, st\<lparr>out := out st @ [((nodeA, True), fields1A)]\<rparr>)"
  by (simp add: rewrite_def anonymize1 print1)

section \<open>Printing and address rewriting\<close>

lemma find_pos_char:
  "find_pos bs k = Inr pos \<Longrightarrow>
     k \<le> pos \<and> pos - k < length bs \<and> bs ! (pos - k) \<notin> set RESERVED_CLASS_A
       \<and> (\<forall>j < pos - k. bs ! j \<in> set RESERVED_CLASS_A)"
proof (induction bs arbitrary: k)
  case Nil
  then show ?case by simp
next
  case (Cons b bs)
  show ?case
  proof (cases "b \<in> set RESERVED_CLASS_A")
    case True
    with Cons.prems have "find_pos bs (k + 1) = Inr pos" by simp
    from Cons.IH [OF this] have ih: "k + 1 \<le> pos" "pos - (k + 1) < length bs"
      "bs ! (pos - (k + 1)) \<notin> set RESERVED_CLASS_A"
      "\<forall>j < pos - (k + 1). bs ! j \<in> set RESERVED_CLASS_A" by auto
    have eq: "pos - k = Suc (pos - (k + 1))" using ih(1) by simp
    show ?thesis unfolding eq using ih True by (auto simp: nth_Cons' less_Suc_eq_0_disj)
  next
    case False
    with Cons.prems show ?thesis by simp
  qed
qed

lemma collect_nth:
  "collect_fields flds ks = Inr ss \<Longrightarrow> i < length ks \<Longrightarrow> flds ! (ks ! i) = Str s
     \<Longrightarrow> ks ! i < length flds \<Longrightarrow> ss ! i = s"
proof (induction ks arbitrary: ss i)
  case Nil
  then show ?case by simp
next
  case (Cons k ks)
  from Cons.prems(1) obtain t ts where t: "field_text flds k = Inr t"
    and ts: "collect_fields flds ks = Inr ts" and ss: "ss = t # ts"
    by (auto split: sum.splits)
  show ?case
  proof (cases i)
    case 0
    then show ?thesis using Cons.prems t ss by (auto simp: field_text_def split: if_splits)
  next
    case (Suc j)
    then show ?thesis using Cons.prems ss Cons.IH [OF ts, of j] by simp
  qed
qed

lemma collect_length: "collect_fields flds ks = Inr ss \<Longrightarrow> length ss = length ks"
  by (induction ks arbitrary: ss) (auto split: sum.splits)

lemma print_emits:
  "print_rwcut_line flds k st = Inr st' \<Longrightarrow>
     \<exists>ss. st' = st\<lparr>out := out st @ [(k, ss)]\<rparr> \<and> collect_fields flds [0..<12] = Inr ss"
  by (auto simp: print_rwcut_line_def split: sum.splits)

lemma rewrite_emits:
  assumes "rewrite T p inb node aa st = Inr (p', st')"
  shows "anonymize p inb node = Inr p' \<and>
    (\<exists>ss es. out st' = out st @ ((node, inb), ss) # es \<and> collect_fields p' [0..<12] = Inr ss)"
proof -
  from assms have a: "anonymize p inb node = Inr p'"
    by (auto simp: rewrite_def split: sum.splits if_splits)
  from assms a obtain st1 where p: "print_rwcut_line p' (node, inb) st = Inr st1"
    and f: "frame st1 st'"
    by (auto simp: rewrite_def split: sum.splits if_splits dest!: synthesize_frame)
  from print_emits [OF p] obtain ss where "out st1 = out st @ [((node, inb), ss)]"
    and c: "collect_fields p' [0..<12] = Inr ss" by auto
  with f have "\<exists>es. out st' = out st @ ((node, inb), ss) # es" by (auto simp: frame_def)
  with a c show ?thesis by blast
qed

lemma anonymize_char:
  assumes "anonymize p inb node = Inr p'" and "p ! FIELD_SRCIP \<noteq> Str ''sIP''"
  shows "\<exists>a x pos. p ! internalfield inb = Str a \<and> p ! externalfield inb = Str x
     \<and> find_pos (md5it (x @ name node)) 0 = Inr pos \<and> pos + 3 < 16
     \<and> p' = p[internalfield inb := Str (ip3 (own_network node) (md5it a)),
              externalfield inb := Str (ip4 (md5it (x @ name node)) pos)]
     \<and> internalfield inb < length p \<and> externalfield inb < length p"
  using assms
  by (cases inb)
     (auto simp: anonymize_def external_ip_def internalfield_def externalfield_def length_md5it
        split: if_splits pyval.splits sum.splits)

section \<open>C4: the synthesis trigger\<close>

lemma noise_lines_marked:
  "noise_lines T inb (counter_at (synthetic_interval T) k) ls st =
     marked_lines T inb (zip ls (map (add_attack_at (synthetic_interval T)) [k..<k + length ls])) st"
proof (induction ls arbitrary: k st)
  case Nil
  then show ?case by simp
next
  case (Cons l ls)
  have upt: "[k..<k + length (l # ls)] = k # [Suc k..<Suc k + length ls]"
    by (simp add: upt_rec)
  show ?case
    unfolding upt using Cons.IH [of "Suc k"]
    by (auto simp: add_attack_at_def split: sum.splits)
qed

lemma add_attack_at_zero: "add_attack_at 0 k = (0 < k)"
proof -
  have "counter_at 0 k = (if k = 0 then 0 else 1)" by (induction k) auto
  then show ?thesis by (simp add: add_attack_at_def)
qed

text \<open>
  C4, as the program has it. A pass of \<^verbatim>\<open>foreach_noise\<close> treats line \<open>k\<close> with
  \<^verbatim>\<open>add_attack\<close> set exactly when the counter, which starts at 0, exceeds the interval at
  that line; a marked line resets the counter to 1 and any other line increments it.
  The first line of a pass is marked only for a negative interval, and for the interval
  0 every line but the first is marked.
\<close>

theorem C4_trigger_marks:
  "foreach_noise T ls inb st =
     marked_lines T inb
       (zip ls (map (add_attack_at (synthetic_interval T)) [0..<length ls])) st
   \<and> counter_at I 0 = 0
   \<and> add_attack_at I k = (I < counter_at I k)
   \<and> counter_at I (Suc k) = (if add_attack_at I k then 1 else counter_at I k + 1)
   \<and> add_attack_at I 0 = (I < 0)
   \<and> add_attack_at 0 k = (0 < k)"
  using noise_lines_marked [of T inb 0 ls st] add_attack_at_zero [of k]
  by (simp add: foreach_noise_def add_attack_at_def)

theorem C4_trigger_marks_witness:
  "foreach_noise mixed_big [] True \<lparr>victim_node = None, bot_portcount = 0, rand = [], out = []\<rparr>
     = Inr \<lparr>victim_node = None, bot_portcount = 0, rand = [], out = []\<rparr>
   \<and> counter_at 5 0 = 0 \<and> \<not> add_attack_at 5 0 \<and> counter_at 5 1 = 1 \<and> add_attack_at 0 3"
  using C4_trigger_marks [of mixed_big "[]" True
      "\<lparr>victim_node = None, bot_portcount = 0, rand = [], out = []\<rparr>" 5 0]
    C4_trigger_marks [of mixed_big "[]" True
      "\<lparr>victim_node = None, bot_portcount = 0, rand = [], out = []\<rparr>" 5 3]
  by simp

text \<open>
  The claim as stated fails: with the interval 0 the first record of a pass is not a
  synthesis trigger.
\<close>

theorem C4_counterexample: "\<not> add_attack_at 0 0"
  by (simp add: add_attack_at_def)

section \<open>C3: the external address\<close>

lemma nth_upt12: "i < 12 \<Longrightarrow> [0..<12] ! i = i"
  using nth_upt [of 0 i 12] by simp

text \<open>
  C3, as the program has it. For a record that is not a header and holds the address
  \<open>X\<close> in its external field, a call of \<^verbatim>\<open>rewrite\<close> that returns has found the smallest
  position \<open>pos\<close> whose digest byte is not reserved, in the 16-byte digest of \<open>X\<close>
  followed by the node's name; \<open>pos\<close> is at most 12, and the external field of the
  record and of the line written holds the four bytes from \<open>pos\<close>. Only the first of
  the four bytes is tested.
\<close>

theorem C3_external_address:
  assumes "rewrite T p inb node aa st = Inr (p', st')"
    and "p ! FIELD_SRCIP \<noteq> Str ''sIP''"
    and "p ! (if inb then FIELD_SRCIP else FIELD_DSTIP) = Str X"
  shows "length (md5it (X @ name node)) = 16
    \<and> (\<exists>pos. pos + 3 < 16
          \<and> md5it (X @ name node) ! pos \<notin> set RESERVED_CLASS_A
          \<and> (\<forall>j < pos. md5it (X @ name node) ! j \<in> set RESERVED_CLASS_A)
          \<and> p' ! (if inb then FIELD_SRCIP else FIELD_DSTIP)
              = Str (str_int (md5it (X @ name node) ! pos) @ ''.''
                     @ str_int (md5it (X @ name node) ! (pos + 1)) @ ''.''
                     @ str_int (md5it (X @ name node) ! (pos + 2)) @ ''.''
                     @ str_int (md5it (X @ name node) ! (pos + 3)))
          \<and> (\<exists>ss es. out st' = out st @ ((node, inb), ss) # es
                \<and> Str (ss ! (if inb then FIELD_SRCIP else FIELD_DSTIP))
                    = p' ! (if inb then FIELD_SRCIP else FIELD_DSTIP)))"
proof -
  let ?e = "externalfield inb"
  have e: "?e = (if inb then FIELD_SRCIP else FIELD_DSTIP)" by (simp add: externalfield_def)
  from rewrite_emits [OF assms(1)] obtain ss es where an: "anonymize p inb node = Inr p'"
    and o: "out st' = out st @ ((node, inb), ss) # es"
    and c: "collect_fields p' [0..<12] = Inr ss" by blast
  from anonymize_char [OF an assms(2)] obtain a x pos where
    x: "p ! ?e = Str x" and
    f: "find_pos (md5it (x @ name node)) 0 = Inr pos" and b: "pos + 3 < 16" and
    p': "p' = p[internalfield inb := Str (ip3 (own_network node) (md5it a)),
                ?e := Str (ip4 (md5it (x @ name node)) pos)]"
    and len: "internalfield inb < length p" "?e < length p" by blast
  have xX: "x = X" using x assms(3) e by simp
  have v: "p' ! ?e = Str (ip4 (md5it (X @ name node)) pos)" using p' len xX by simp
  have lt: "?e < 12" by (simp add: externalfield_def)
  have s: "ss ! ?e = ip4 (md5it (X @ name node)) pos"
    by (rule collect_nth [OF c]) (use v lt len p' in \<open>simp_all add: nth_upt12\<close>)
  from find_pos_char [OF f] have
    "md5it (X @ name node) ! pos \<notin> set RESERVED_CLASS_A"
    "\<forall>j < pos. md5it (X @ name node) ! j \<in> set RESERVED_CLASS_A"
    using xX by auto
  then show ?thesis using v s o b e length_md5it [of "X @ name node"]
    by (auto simp: ip4_def simp del: length_md5it)
qed

theorem C3_external_address_witness:
  "rewrite two_nodes record1 True nodeA False st_none
     = Inr (record1A, st_none\<lparr>out := out st_none @ [((nodeA, True), fields1A)]\<rparr>)
   \<and> record1 ! FIELD_SRCIP \<noteq> Str ''sIP'' \<and> record1 ! FIELD_SRCIP = Str ''10.1.1.135''
   \<and> length (md5it (''10.1.1.135'' @ name nodeA)) = 16
   \<and> (\<exists>pos. pos + 3 < 16
          \<and> md5it (''10.1.1.135'' @ name nodeA) ! pos \<notin> set RESERVED_CLASS_A
          \<and> record1A ! FIELD_SRCIP
              = Str (str_int (md5it (''10.1.1.135'' @ name nodeA) ! pos) @ ''.''
                     @ str_int (md5it (''10.1.1.135'' @ name nodeA) ! (pos + 1)) @ ''.''
                     @ str_int (md5it (''10.1.1.135'' @ name nodeA) ! (pos + 2)) @ ''.''
                     @ str_int (md5it (''10.1.1.135'' @ name nodeA) ! (pos + 3))))"
proof -
  have r: "record1 ! FIELD_SRCIP \<noteq> Str ''sIP''" "record1 ! FIELD_SRCIP = Str ''10.1.1.135''"
    by (simp_all add: record1_def)
  note t = C3_external_address [of two_nodes record1 True nodeA False st_none _ _
      "''10.1.1.135''", unfolded if_True, OF rewrite1 r]
  from t [THEN conjunct2] obtain pos where
    "pos + 3 < 16"
    "md5it (''10.1.1.135'' @ name nodeA) ! pos \<notin> set RESERVED_CLASS_A"
    "record1A ! FIELD_SRCIP
              = Str (str_int (md5it (''10.1.1.135'' @ name nodeA) ! pos) @ ''.''
                     @ str_int (md5it (''10.1.1.135'' @ name nodeA) ! (pos + 1)) @ ''.''
                     @ str_int (md5it (''10.1.1.135'' @ name nodeA) ! (pos + 2)) @ ''.''
                     @ str_int (md5it (''10.1.1.135'' @ name nodeA) ! (pos + 3)))"
    by blast
  then show ?thesis
    using rewrite1 [of two_nodes st_none] r t [THEN conjunct1]
    by (intro conjI exI [of _ pos]) assumption+
qed

text \<open>
  The claim as stated fails. For the record \<open>line1\<close> at node A the program writes the
  external address 39.177.250.0, the digest bytes 1 to 4: byte 0 is the reserved 255,
  byte 1 is not reserved, and byte 4 is the reserved 0. The smallest position with no
  reserved byte among its four is 5, which would give 32.67.148.58.
\<close>

theorem C3_counterexample:
  "rewrite two_nodes record1 True nodeA False st_none
     = Inr (record1A, st_none\<lparr>out := out st_none @ [((nodeA, True), fields1A)]\<rparr>)
   \<and> record1 ! FIELD_SRCIP = Str ''10.1.1.135'' \<and> name nodeA = ''A''
   \<and> ip4 (md5it ''10.1.1.135A'') 1 = ''39.177.250.0''
   \<and> md5it ''10.1.1.135A'' ! 4 = 0 \<and> 0 \<in> set RESERVED_CLASS_A
   \<and> \<not> none_reserved (md5it ''10.1.1.135A'') 0 \<and> \<not> none_reserved (md5it ''10.1.1.135A'') 1
   \<and> \<not> none_reserved (md5it ''10.1.1.135A'') 2 \<and> \<not> none_reserved (md5it ''10.1.1.135A'') 3
   \<and> \<not> none_reserved (md5it ''10.1.1.135A'') 4 \<and> none_reserved (md5it ''10.1.1.135A'') 5
   \<and> ip4 (md5it ''10.1.1.135A'') 5 = ''32.67.148.58''"
  using rewrite1 [of two_nodes st_none]
  by (simp add: record1_def nodeA_def Node_def dg1 none_reserved_def RESERVED_CLASS_A_def str_eval)

section \<open>C1: one parsed list for every node\<close>

lemma dg2: "md5it ''172.16.164.108'' = [43, 136, 1, 209, 232, 251, 165, 97, 50, 111, 96, 166, 246, 192, 213, 69]"
  by (simp add: md5_eval)

lemma dg3: "md5it ''39.177.250.0B'' = [135, 248, 193, 185, 226, 221, 84, 122, 49, 199, 228, 7, 82, 195, 224, 109]"
  by (simp add: md5_eval)

lemma dg4: "md5it ''10.1.1.135B'' = [5, 189, 245, 69, 149, 197, 115, 222, 186, 240, 87, 131, 83, 75, 80, 203]"
  by (simp add: md5_eval)


lemma anonymize1AB: "anonymize record1A True nodeB = Inr record1AB"
  by (simp add: anonymize_def record1_def record1A_def record1AB_def internalfield_def
      externalfield_def external_ip_def nodeB_def Node_def dg2 dg3 RESERVED_CLASS_A_def str_eval)

lemma anonymize1B: "anonymize record1 True nodeB = Inr record1B"
  by (simp add: anonymize_def record1_def record1B_def internalfield_def
      externalfield_def external_ip_def nodeB_def Node_def dg0 dg4 RESERVED_CLASS_A_def str_eval)

lemma print1AB: "print_rwcut_line record1AB k st = Inr (st\<lparr>out := out st @ [(k, fields1AB)]\<rparr>)"
  by (simp add: print_rwcut_line_def record1_def record1AB_def fields1AB_def field_text_def
      upt_0_num upt_1_num)

lemma print1B: "print_rwcut_line record1B k st = Inr (st\<lparr>out := out st @ [(k, fields1B)]\<rparr>)"
  by (simp add: print_rwcut_line_def record1_def record1B_def fields1B_def field_text_def
      upt_0_num upt_1_num)

text \<open>
  C1 at a concrete input. The record \<open>line1\<close> is processed for the nodes A and B, in
  this order, without a trigger. Node B's line carries the addresses 135.248.193.185
  and 172.17.43.136, computed from the addresses that the call for node A wrote into
  the shared list; from the record as parsed, node B's line would carry 5.189.245.69
  and 172.17.164.108, which is what \<^verbatim>\<open>rewrite\<close> gives when called on the parsed record.
\<close>

theorem C1_second_view_sees_first_rewrite:
  "foreach_noise two_nodes [line1] True st_none
     = Inr (st_none\<lparr>out := [((nodeA, True), fields1A), ((nodeB, True), fields1AB)]\<rparr>)
   \<and> rewrite two_nodes record1 True nodeA False st_none
     = Inr (record1A, st_none\<lparr>out := [((nodeA, True), fields1A)]\<rparr>)
   \<and> rewrite two_nodes record1A True nodeB False (st_none\<lparr>out := [((nodeA, True), fields1A)]\<rparr>)
     = Inr (record1AB, st_none\<lparr>out := [((nodeA, True), fields1A), ((nodeB, True), fields1AB)]\<rparr>)
   \<and> rewrite two_nodes record1 True nodeB False st_none
     = Inr (record1B, st_none\<lparr>out := [((nodeB, True), fields1B)]\<rparr>)
   \<and> parse_line line1 = Inr record1
   \<and> record1A \<noteq> record1 \<and> fields1AB \<noteq> fields1B"
proof -
  have a: "rewrite two_nodes record1 True nodeA False st_none
     = Inr (record1A, st_none\<lparr>out := [((nodeA, True), fields1A)]\<rparr>)"
    using rewrite1 [of two_nodes st_none] by (simp add: st_none_def)
  have b: "rewrite two_nodes record1A True nodeB False (st_none\<lparr>out := [((nodeA, True), fields1A)]\<rparr>)
     = Inr (record1AB, st_none\<lparr>out := [((nodeA, True), fields1A), ((nodeB, True), fields1AB)]\<rparr>)"
    by (simp add: rewrite_def anonymize1AB print1AB)
  have c: "rewrite two_nodes record1 True nodeB False st_none
     = Inr (record1B, st_none\<lparr>out := [((nodeB, True), fields1B)]\<rparr>)"
    by (simp add: rewrite_def anonymize1B print1B st_none_def)
  have i: "\<not> synthetic_interval two_nodes < 0" "nodelist two_nodes = [nodeA, nodeB]"
    by (simp_all add: two_nodes_def mixed_big_def)
  have d: "foreach_noise two_nodes [line1] True st_none
     = Inr (st_none\<lparr>out := [((nodeA, True), fields1A), ((nodeB, True), fields1AB)]\<rparr>)"
    by (simp add: foreach_noise_def parse_line1 rewrite_nodes_def i a b)
  have e: "record1A \<noteq> record1" "fields1AB \<noteq> fields1B"
    by (simp_all add: record1A_def record1_def fields1AB_def fields1B_def)
  show ?thesis using a b c d e parse_line1 by (intro conjI) assumption+
qed

section \<open>C2: header lines\<close>

lemma split_header: "split CHR ''|'' header_line =
  [''                                    sIP'', ''                                    dIP'',
   ''sPort'', ''dPort'', ''pro'', ''   packets'', ''     bytes'', ''   flags'',
   ''                  sTime'', '' duration'', ''                  eTime'', ''sen'', [CHR 0x0A]]"
  by (simp add: header_line_def)

lemma strip_header: "strip_fields (split CHR ''|'' header_line) =
  [''sIP'', ''dIP'', ''sPort'', ''dPort'', ''pro'', ''packets'', ''bytes'', ''   flags'',
   ''sTime'', ''duration'', ''eTime'', ''sen'', []]"
  by (simp add: split_header strip_fields_def strip_def is_space_def upt_0_num upt_1_num)

lemma parse_header: "parse_line header_line = Inr header_record"
  by (simp add: parse_line_def strip_header header_record_def) (simp add: split_header)

lemma anonymize_header: "anonymize header_record inb node = Inr header_record"
  by (simp add: anonymize_def header_record_def)

lemma print_header:
  "print_rwcut_line header_record k st = Inr (st\<lparr>out := out st @ [(k, header_fields)]\<rparr>)"
  by (simp add: print_rwcut_line_def header_record_def header_fields_def field_text_def
      upt_0_num upt_1_num)

lemma amplifiers_header:
  "gen_amplifiers mixed_big header_record (header_record ! FIELD_TIMEDATE) True nodeA k st
     = Inl TypeError"
  by (simp add: gen_amplifiers_def py_range_def mixed_big_def amplifier_flow_def flow_times_def
      timedelta_def us_per_day_def header_record_def upt_0_num upt_1_num)

text \<open>
  C2 at a concrete input, with the shipped topology. The header line parses to
  \<open>header_record\<close>. Processed without a trigger it is written as it is. Line 6 (the
  seventh) of a pass is a trigger, and processed with the trigger set the header makes
  \<^verbatim>\<open>rewrite\<close> raise TypeError at node A: the generators are entered with the string
  that the header has in place of a start time.
\<close>

theorem C2_header_on_trigger:
  "parse_line header_line = Inr header_record
   \<and> rewrite mixed_big header_record True nodeA False st_F
       = Inr (header_record, st_F\<lparr>out := [((nodeA, True), header_fields)]\<rparr>)
   \<and> add_attack_at (synthetic_interval mixed_big) 6
   \<and> rewrite mixed_big header_record True nodeA True st_F = Inl TypeError"
proof -
  have a: "rewrite mixed_big header_record True nodeA False st_F
       = Inr (header_record, st_F\<lparr>out := [((nodeA, True), header_fields)]\<rparr>)"
    by (simp add: rewrite_def anonymize_header print_header st_F_def)
  have six: "(6::nat) = Suc (Suc (Suc (Suc (Suc (Suc 0)))))" by simp
  have b: "add_attack_at (synthetic_interval mixed_big) 6"
    unfolding six by (simp add: add_attack_at_def mixed_big_def)
  have h: "has_amplifiers nodeA" "\<not> length header_record \<le> 12"
    by (simp_all add: nodeA_def Node_def header_record_def)
  have c: "rewrite mixed_big header_record True nodeA True st_F = Inl TypeError"
    by (simp add: rewrite_def anonymize_header print_header synthesize_def h amplifiers_header)
  show ?thesis using parse_header a b c by (intro conjI) assumption+
qed

section \<open>C6: the internal address\<close>

text \<open>
  What one call does: for a record that is not a header and holds the address \<open>A\<close> in
  its internal field (the destination when inbound, the source when outbound), a call of
  \<^verbatim>\<open>rewrite\<close> that returns leaves in that field, and writes in that field of the line,
  the node's prefix followed by the first two bytes of the digest of \<open>A\<close>, where \<open>A\<close>
  is the address that the field holds when the call is made.
\<close>

lemma rewrite_internal_address:
  assumes "rewrite T p inb node aa st = Inr (p', st')"
    and "p ! FIELD_SRCIP \<noteq> Str ''sIP''"
    and "p ! (if inb then FIELD_DSTIP else FIELD_SRCIP) = Str A"
  shows "length (md5it A) = 16
    \<and> p' ! (if inb then FIELD_DSTIP else FIELD_SRCIP)
        = Str (own_network node @ ''.'' @ str_int (md5it A ! 0) @ ''.'' @ str_int (md5it A ! 1))
    \<and> (\<exists>ss es. out st' = out st @ ((node, inb), ss) # es
          \<and> ss ! (if inb then FIELD_DSTIP else FIELD_SRCIP)
              = own_network node @ ''.'' @ str_int (md5it A ! 0) @ ''.'' @ str_int (md5it A ! 1))"
proof -
  let ?i = "internalfield inb"
  let ?addr = "own_network node @ ''.'' @ str_int (md5it A ! 0) @ ''.'' @ str_int (md5it A ! 1)"
  have i: "?i = (if inb then FIELD_DSTIP else FIELD_SRCIP)" by (simp add: internalfield_def)
  from rewrite_emits [OF assms(1)] obtain ss es where an: "anonymize p inb node = Inr p'"
    and o: "out st' = out st @ ((node, inb), ss) # es"
    and c: "collect_fields p' [0..<12] = Inr ss" by blast
  from anonymize_char [OF an assms(2)] obtain a x pos where
    a: "p ! ?i = Str a" and
    p': "p' = p[?i := Str (ip3 (own_network node) (md5it a)),
                externalfield inb := Str (ip4 (md5it (x @ name node)) pos)]"
    and len: "?i < length p" "externalfield inb < length p" by blast
  have aA: "a = A" using a assms(3) i by simp
  have ne: "?i \<noteq> externalfield inb" by (simp add: internalfield_def externalfield_def)
  have v: "p' ! ?i = Str ?addr" using p' len ne aA by (simp add: ip3_def)
  have lt: "?i < 12" by (simp add: internalfield_def)
  have "ss ! ?i = ?addr"
    by (rule collect_nth [OF c]) (use v lt len p' in \<open>simp_all add: nth_upt12\<close>)
  then show ?thesis using v o i length_md5it by auto
qed

lemma rewrite1AB:
  "rewrite T record1A True nodeB False st
     = Inr (record1AB, st\<lparr>out := out st @ [((nodeB, True), fields1AB)]\<rparr>)"
  by (simp add: rewrite_def anonymize1AB print1AB)

text \<open>
  C6 at a concrete input. In a pass the internal field of the one list \<^verbatim>\<open>parsed\<close> holds,
  for every node after the first, what the node before wrote there. The record \<open>line1\<close>
  has the internal address 93.184.216.34. Node A writes its prefix and the digest of
  that address. Node B, which comes next, writes 172.17.43.136: its prefix and the
  digest of the address 172.16.164.108 that node A left in the field. The prefix of B
  and the digest of 93.184.216.34 are 172.17.164.108, and this is what \<^verbatim>\<open>rewrite\<close>
  writes for node B when it is called on the record as parsed. So the internal address
  written for 93.184.216.34 at node B is not the one the digest of 93.184.216.34 gives,
  and it is not the same on every invocation.
\<close>

theorem C6_later_node_digests_rewritten_address:
  "parse_line line1 = Inr record1
   \<and> record1 ! FIELD_DSTIP = Str ''93.184.216.34''
   \<and> foreach_noise two_nodes [line1] True st_none
       = Inr (st_none\<lparr>out := [((nodeA, True), fields1A), ((nodeB, True), fields1AB)]\<rparr>)
   \<and> fields1A ! FIELD_DSTIP = ip3 (own_network nodeA) (md5it ''93.184.216.34'')
   \<and> fields1AB ! FIELD_DSTIP = ''172.17.43.136''
   \<and> ip3 (own_network nodeB) (md5it ''93.184.216.34'') = ''172.17.164.108''
   \<and> fields1AB ! FIELD_DSTIP = ip3 (own_network nodeB) (md5it (fields1A ! FIELD_DSTIP))
   \<and> rewrite two_nodes record1 True nodeB False st_none
       = Inr (record1B, st_none\<lparr>out := [((nodeB, True), fields1B)]\<rparr>)
   \<and> fields1B ! FIELD_DSTIP = ''172.17.164.108''"
proof -
  have i: "\<not> synthetic_interval two_nodes < 0" "nodelist two_nodes = [nodeA, nodeB]"
    by (simp_all add: two_nodes_def mixed_big_def)
  have d: "foreach_noise two_nodes [line1] True st_none
     = Inr (st_none\<lparr>out := [((nodeA, True), fields1A), ((nodeB, True), fields1AB)]\<rparr>)"
    by (simp add: foreach_noise_def parse_line1 rewrite_nodes_def i rewrite1 rewrite1AB st_none_def)
  have c: "rewrite two_nodes record1 True nodeB False st_none
     = Inr (record1B, st_none\<lparr>out := [((nodeB, True), fields1B)]\<rparr>)"
    by (simp add: rewrite_def anonymize1B print1B st_none_def)
  have f: "record1 ! FIELD_DSTIP = Str ''93.184.216.34''"
    "fields1A ! FIELD_DSTIP = ip3 (own_network nodeA) (md5it ''93.184.216.34'')"
    "fields1AB ! FIELD_DSTIP = ''172.17.43.136''"
    "ip3 (own_network nodeB) (md5it ''93.184.216.34'') = ''172.17.164.108''"
    "fields1AB ! FIELD_DSTIP = ip3 (own_network nodeB) (md5it (fields1A ! FIELD_DSTIP))"
    "fields1B ! FIELD_DSTIP = ''172.17.164.108''"
    by (simp_all add: record1_def fields1A_def fields1AB_def fields1B_def nodeA_def nodeB_def
        Node_def dg0 dg2 str_eval)
  show ?thesis using parse_line1 d c f by (intro conjI) assumption+
qed

section \<open>C10: a topology without a victim\<close>
















section \<open>What each generator writes\<close>

lemma flow_times_char:
  assumes "flow_times start ms dur synth0 = Inr synth"
  shows "\<exists>t. start = DateTime t \<and> 10 < length synth0
     \<and> synth = synth0[FIELD_STIME := Str (stamp (t + 1000 * ms)),
                      FIELD_DURATION := Str (fmt3 dur),
                      FIELD_ETIME := Str (stamp (t + 1000 * ms + 1000000 * dur))]"
proof (cases start)
  case (DateTime t)
  with assms show ?thesis
    by (auto simp: flow_times_def timedelta_def split: sum.splits if_splits)
next
  case (Str x)
  with assms show ?thesis
    by (auto simp: flow_times_def timedelta_def split: sum.splits if_splits)
next
  case PyNone
  with assms show ?thesis
    by (auto simp: flow_times_def timedelta_def split: sum.splits if_splits)
qed

lemma print_char:
  assumes "print_rwcut_line flds k st = Inr st'"
  shows "\<exists>ss. st' = st\<lparr>out := out st @ [(k, ss)]\<rparr> \<and> length ss = 12
     \<and> (\<forall>i s. i < 12 \<longrightarrow> i < length flds \<longrightarrow> flds ! i = Str s \<longrightarrow> ss ! i = s)"
proof -
  from print_emits [OF assms] obtain ss where st': "st' = st\<lparr>out := out st @ [(k, ss)]\<rparr>"
    and c: "collect_fields flds [0..<12] = Inr ss" by blast
  have "ss ! i = s" if "i < 12" "i < length flds" "flds ! i = Str s" for i s
    by (rule collect_nth [OF c]) (use that in \<open>simp_all add: nth_upt12\<close>)
  moreover have "length ss = 12" using collect_length [OF c] by simp
  ultimately show ?thesis using st' by blast
qed

lemma randint_keeps:
  "randint a b st = Inr r \<Longrightarrow>
     out (snd r) = out st \<and> bot_portcount (snd r) = bot_portcount st
       \<and> victim_node (snd r) = victim_node st \<and> a \<le> fst r \<and> fst r \<le> b"
  by (auto simp: randint_def split: if_splits list.splits intro: pos_mod_sign)
     (smt (verit) pos_mod_bound)

lemma sum_case_Inr:
  "(case m of Inl e \<Rightarrow> Inl e | Inr x \<Rightarrow> f x) = Inr y \<longleftrightarrow> (\<exists>x. m = Inr x \<and> f x = Inr y)"
  by (cases m) auto

lemma option_case_Inr:
  "(case v of None \<Rightarrow> Inl e | Some x \<Rightarrow> f x) = Inr y \<longleftrightarrow> (\<exists>x. v = Some x \<and> f x = Inr y)"
  by (cases v) auto

lemmas inv_simps = sum_case_Inr option_case_Inr sum.inject

lemma amplifier_flow_char:
  assumes "amplifier_flow T start inb node outf i s = Inr s'"
  shows "\<exists>ss t. out (snd s') = out (snd s) @ [(outf, ss)]
     \<and> bot_portcount (snd s') = bot_portcount (snd s)
     \<and> start = DateTime t
     \<and> ss ! FIELD_STIME = stamp (t + 1000 * (10 * (1 + i)))
     \<and> ss ! FIELD_DURATION = fmt3 (flow_duration T)
     \<and> ss ! FIELD_ETIME = stamp (t + 1000 * (10 * (1 + i)) + 1000000 * flow_duration T)
     \<and> ss ! (if inb then FIELD_DSTIP else FIELD_SRCIP)
          = ip3 (own_network node) (md5it (own_network node @ str_int i))"
proof -
  obtain synth victim pk bt st' where
    ft: "flow_times start (10 * (1 + i)) (flow_duration T) (fst s) = Inr synth"
    and vn: "victim_node (snd s) = Some victim"
    and pk: "randint 0 (if inb then reflect_input_packets_per_flow T
                       else reflect_output_packets_per_flow T) (snd s) = Inr pk"
    and bt: "randint 0 (if inb then reflect_input_bytes_per_flow T
                       else reflect_output_bytes_per_flow T) (snd pk) = Inr bt"
    and pr: "print_rwcut_line (amplifier_fields T inb
                (ip3 (own_network node) (md5it (own_network node @ str_int i)))
                (opt_val (victim_ip victim)) (fst pk) (fst bt) synth) outf (snd bt) = Inr st'"
    and s': "(amplifier_fields T inb
                (ip3 (own_network node) (md5it (own_network node @ str_int i)))
                (opt_val (victim_ip victim)) (fst pk) (fst bt) synth, st') = s'"
    using assms [unfolded amplifier_flow_def inv_simps] by (elim exE conjE) (rule that, assumption+)
  from flow_times_char [OF ft] obtain t where t: "start = DateTime t" "10 < length (fst s)"
    and synth: "synth = (fst s)[FIELD_STIME := Str (stamp (t + 1000 * (10 * (1 + i)))),
                      FIELD_DURATION := Str (fmt3 (flow_duration T)),
                      FIELD_ETIME := Str (stamp (t + 1000 * (10 * (1 + i)) + 1000000 * flow_duration T))]"
    by blast
  from print_char [OF pr] obtain ss where
    st': "st' = (snd bt)\<lparr>out := out (snd bt) @ [(outf, ss)]\<rparr>"
    and nth: "\<And>j s. j < 12 \<Longrightarrow> j < length (amplifier_fields T inb
                (ip3 (own_network node) (md5it (own_network node @ str_int i)))
                (opt_val (victim_ip victim)) (fst pk) (fst bt) synth) \<Longrightarrow>
              amplifier_fields T inb
                (ip3 (own_network node) (md5it (own_network node @ str_int i)))
                (opt_val (victim_ip victim)) (fst pk) (fst bt) synth ! j = Str s \<Longrightarrow> ss ! j = s"
    by blast
  have len: "length synth = length (fst s)" using synth by simp
  have ne: "fst s \<noteq> []" using t by auto
  have "ss ! FIELD_STIME = stamp (t + 1000 * (10 * (1 + i)))"
    by (rule nth) (use t len synth in \<open>simp_all add: amplifier_fields_def\<close>)
  moreover have "ss ! FIELD_DURATION = fmt3 (flow_duration T)"
    by (rule nth) (use t len synth in \<open>simp_all add: amplifier_fields_def\<close>)
  moreover have "ss ! FIELD_ETIME = stamp (t + 1000 * (10 * (1 + i)) + 1000000 * flow_duration T)"
    by (rule nth) (use t len synth in \<open>simp_all add: amplifier_fields_def\<close>)
  moreover have "ss ! (if inb then FIELD_DSTIP else FIELD_SRCIP)
          = ip3 (own_network node) (md5it (own_network node @ str_int i))"
    by (rule nth) (use t len synth ne in \<open>auto simp: amplifier_fields_def\<close>)
  moreover have "out (snd s') = out (snd s) @ [(outf, ss)]"
    "bot_portcount (snd s') = bot_portcount (snd s)"
    using s' [symmetric] st' randint_keeps [OF pk] randint_keeps [OF bt] by simp_all
  ultimately show ?thesis using t by blast
qed


lemma port_char:
  "get_bot_src_port (md5it x) st
     = Inr (bot_port (bot_portcount st) (md5it x), st\<lparr>bot_portcount := bot_portcount st + 1\<rparr>)"
  by (simp add: get_bot_src_port_def bot_port_def length_md5it)

lemma bot_flow_char:
  assumes "bot_flow T start node outf i s = Inr s'"
  shows "\<exists>ss t. out (snd s') = out (snd s) @ [(outf, ss)]
     \<and> bot_portcount (snd s') = bot_portcount (snd s) + 1
     \<and> start = DateTime t
     \<and> ss ! FIELD_STIME = stamp (t + 1000 * (10 * (1 + i)))
     \<and> ss ! FIELD_DURATION = fmt3 (flow_duration T)
     \<and> ss ! FIELD_ETIME = stamp (t + 1000 * (10 * (1 + i)) + 1000000 * flow_duration T)
     \<and> ss ! FIELD_SRCIP = ip3 (own_network node) (md5it (own_network node @ str_int i @ ''bot''))
     \<and> ss ! FIELD_SRCPORT
          = bot_port (bot_portcount (snd s)) (md5it (own_network node @ str_int i @ ''bot''))"
proof -
  let ?d = "md5it (own_network node @ str_int i @ ''bot'')"
  obtain synth victim port pk bt st' where
    ft: "flow_times start (10 * (1 + i)) (flow_duration T) (fst s) = Inr synth"
    and vn: "victim_node (snd s) = Some victim"
    and po: "get_bot_src_port ?d (snd s) = Inr port"
    and pk: "randint 0 (bot_output_packets_per_flow T) (snd port) = Inr pk"
    and bt: "randint 0 (bot_output_bytes_per_flow T) (snd pk) = Inr bt"
    and pr: "print_rwcut_line (bot_fields T (ip3 (own_network node) ?d)
                (opt_val (victim_ip victim)) (fst port) (fst pk) (fst bt) synth) outf (snd bt) = Inr st'"
    and s': "(bot_fields T (ip3 (own_network node) ?d)
                (opt_val (victim_ip victim)) (fst port) (fst pk) (fst bt) synth, st') = s'"
    using assms [unfolded bot_flow_def inv_simps] by (elim exE conjE) (rule that, assumption+)
  from flow_times_char [OF ft] obtain t where t: "start = DateTime t" "10 < length (fst s)"
    and synth: "synth = (fst s)[FIELD_STIME := Str (stamp (t + 1000 * (10 * (1 + i)))),
                      FIELD_DURATION := Str (fmt3 (flow_duration T)),
                      FIELD_ETIME := Str (stamp (t + 1000 * (10 * (1 + i)) + 1000000 * flow_duration T))]"
    by blast
  from po have port: "fst port = bot_port (bot_portcount (snd s)) ?d"
    "snd port = (snd s)\<lparr>bot_portcount := bot_portcount (snd s) + 1\<rparr>"
    by (auto simp: port_char)
  from print_char [OF pr] obtain ss where
    st': "st' = (snd bt)\<lparr>out := out (snd bt) @ [(outf, ss)]\<rparr>"
    and nth: "\<And>j s. j < 12 \<Longrightarrow> j < length (bot_fields T (ip3 (own_network node) ?d)
                (opt_val (victim_ip victim)) (fst port) (fst pk) (fst bt) synth) \<Longrightarrow>
              bot_fields T (ip3 (own_network node) ?d)
                (opt_val (victim_ip victim)) (fst port) (fst pk) (fst bt) synth ! j = Str s \<Longrightarrow> ss ! j = s"
    by blast
  have len: "length synth = length (fst s)" using synth by simp
  have ne: "fst s \<noteq> []" using t by auto
  have "ss ! FIELD_STIME = stamp (t + 1000 * (10 * (1 + i)))"
    by (rule nth) (use t len synth in \<open>simp_all add: bot_fields_def\<close>)
  moreover have "ss ! FIELD_DURATION = fmt3 (flow_duration T)"
    by (rule nth) (use t len synth in \<open>simp_all add: bot_fields_def\<close>)
  moreover have "ss ! FIELD_ETIME = stamp (t + 1000 * (10 * (1 + i)) + 1000000 * flow_duration T)"
    by (rule nth) (use t len synth in \<open>simp_all add: bot_fields_def\<close>)
  moreover have "ss ! FIELD_SRCIP = ip3 (own_network node) ?d"
    by (rule nth) (use t len synth ne in \<open>simp_all add: bot_fields_def\<close>)
  moreover have "ss ! FIELD_SRCPORT = bot_port (bot_portcount (snd s)) ?d"
    by (rule nth) (use t len synth ne port in \<open>simp_all add: bot_fields_def\<close>)
  moreover have "out (snd s') = out (snd s) @ [(outf, ss)]"
    "bot_portcount (snd s') = bot_portcount (snd s) + 1"
    using s' [symmetric] st' randint_keeps [OF pk] randint_keeps [OF bt] port by simp_all
  ultimately show ?thesis using t by blast
qed

lemma victim_amplifier_flow_char:
  assumes "victim_amplifier_flow T start node i s = Inr s'"
  shows "\<exists>ss t victim. out (snd s') = out (snd s) @ [((victim, True), ss)]
     \<and> victim_node (snd s) = Some victim
     \<and> bot_portcount (snd s') = bot_portcount (snd s)
     \<and> start = DateTime t
     \<and> ss ! FIELD_STIME = stamp (t + 1000 * (10 * (1 + i)))
     \<and> ss ! FIELD_DURATION = fmt3 (flow_duration T)
     \<and> ss ! FIELD_ETIME = stamp (t + 1000 * (10 * (1 + i)) + 1000000 * flow_duration T)
     \<and> ss ! FIELD_SRCIP = ip3 (own_network node) (md5it (own_network node @ str_int i))"
proof -
  let ?d = "md5it (own_network node @ str_int i)"
  let ?U = "\<lambda>victim pk bt synth. synth[FIELD_PROTO := Str ''17'', FIELD_FLAGS := Str ''        '',
                    FIELD_DSTIP := opt_val (victim_ip victim),
                    FIELD_SRCIP := Str (ip3 (own_network node) ?d),
                    FIELD_DSTPORT := Str (str_int (reflect_client_port T)),
                    FIELD_SRCPORT := Str (str_int (reflect_service_port T)),
                    FIELD_PACKETS := Str (str_int (reflect_output_packets_per_flow T + fst pk)),
                    FIELD_BYTES := Str (str_int (reflect_output_bytes_per_flow T + fst bt))]"
  obtain synth victim pk bt st' where
    ft: "flow_times start (10 * (1 + i)) (flow_duration T) (fst s) = Inr synth"
    and vn: "victim_node (snd s) = Some victim"
    and pk: "randint 0 (reflect_output_packets_per_flow T) (snd s) = Inr pk"
    and bt: "randint 0 (reflect_output_bytes_per_flow T) (snd pk) = Inr bt"
    and pr: "print_rwcut_line (?U victim pk bt synth) (victim, True) (snd bt) = Inr st'"
    and s': "(?U victim pk bt synth, st') = s'"
    using assms [unfolded victim_amplifier_flow_def inv_simps]
    by (elim exE conjE) (rule that, assumption+)
  from flow_times_char [OF ft] obtain t where t: "start = DateTime t" "10 < length (fst s)"
    and synth: "synth = (fst s)[FIELD_STIME := Str (stamp (t + 1000 * (10 * (1 + i)))),
                      FIELD_DURATION := Str (fmt3 (flow_duration T)),
                      FIELD_ETIME := Str (stamp (t + 1000 * (10 * (1 + i)) + 1000000 * flow_duration T))]"
    by blast
  from print_char [OF pr] obtain ss where
    st': "st' = (snd bt)\<lparr>out := out (snd bt) @ [((victim, True), ss)]\<rparr>"
    and nth: "\<And>j s. j < 12 \<Longrightarrow> j < length (?U victim pk bt synth) \<Longrightarrow>
              ?U victim pk bt synth ! j = Str s \<Longrightarrow> ss ! j = s"
    by blast
  have len: "length synth = length (fst s)" using synth by simp
  have ne: "fst s \<noteq> []" using t by auto
  have "ss ! FIELD_STIME = stamp (t + 1000 * (10 * (1 + i)))"
    by (rule nth) (use t len synth in simp_all)
  moreover have "ss ! FIELD_DURATION = fmt3 (flow_duration T)"
    by (rule nth) (use t len synth in simp_all)
  moreover have "ss ! FIELD_ETIME = stamp (t + 1000 * (10 * (1 + i)) + 1000000 * flow_duration T)"
    by (rule nth) (use t len synth in simp_all)
  moreover have "ss ! FIELD_SRCIP = ip3 (own_network node) ?d"
    by (rule nth) (use t len synth ne in simp_all)
  moreover have "out (snd s') = out (snd s) @ [((victim, True), ss)]"
    "bot_portcount (snd s') = bot_portcount (snd s)"
    using s' [symmetric] st' randint_keeps [OF pk] randint_keeps [OF bt] by simp_all
  ultimately show ?thesis using t vn by blast
qed

lemma victim_bot_flow_char:
  assumes "victim_bot_flow T start node i s = Inr s'"
  shows "\<exists>ss t victim. out (snd s') = out (snd s) @ [((victim, True), ss)]
     \<and> victim_node (snd s) = Some victim
     \<and> bot_portcount (snd s') = bot_portcount (snd s) + 1
     \<and> start = DateTime t
     \<and> ss ! FIELD_STIME = stamp (t + 1000 * (10 * (1 + i)))
     \<and> ss ! FIELD_DURATION = fmt3 (flow_duration T)
     \<and> ss ! FIELD_ETIME = stamp (t + 1000 * (10 * (1 + i)) + 1000000 * flow_duration T)
     \<and> ss ! FIELD_SRCIP = ip3 (own_network node) (md5it (own_network node @ str_int i @ ''bot''))
     \<and> ss ! FIELD_SRCPORT
          = bot_port (bot_portcount (snd s)) (md5it (own_network node @ str_int i @ ''bot''))"
proof -
  let ?d = "md5it (own_network node @ str_int i @ ''bot'')"
  let ?U = "\<lambda>victim port pk bt synth. synth[FIELD_PROTO := Str ''17'', FIELD_FLAGS := Str ''        '',
                    FIELD_SRCIP := Str (ip3 (own_network node) ?d),
                    FIELD_DSTIP := opt_val (victim_ip victim),
                    FIELD_SRCPORT := Str (fst port),
                    FIELD_DSTPORT := Str (str_int (bot_dst_port T)),
                    FIELD_PACKETS := Str (str_int (bot_output_packets_per_flow T + fst pk)),
                    FIELD_BYTES := Str (str_int (bot_output_bytes_per_flow T + fst bt))]"
  obtain synth victim port pk bt st' where
    ft: "flow_times start (10 * (1 + i)) (flow_duration T) (fst s) = Inr synth"
    and vn: "victim_node (snd s) = Some victim"
    and po: "get_bot_src_port ?d (snd s) = Inr port"
    and pk: "randint 0 (bot_output_packets_per_flow T) (snd port) = Inr pk"
    and bt: "randint 0 (bot_output_bytes_per_flow T) (snd pk) = Inr bt"
    and pr: "print_rwcut_line (?U victim port pk bt synth) (victim, True) (snd bt) = Inr st'"
    and s': "(?U victim port pk bt synth, st') = s'"
    using assms [unfolded victim_bot_flow_def inv_simps]
    by (elim exE conjE) (rule that, assumption+)
  from flow_times_char [OF ft] obtain t where t: "start = DateTime t" "10 < length (fst s)"
    and synth: "synth = (fst s)[FIELD_STIME := Str (stamp (t + 1000 * (10 * (1 + i)))),
                      FIELD_DURATION := Str (fmt3 (flow_duration T)),
                      FIELD_ETIME := Str (stamp (t + 1000 * (10 * (1 + i)) + 1000000 * flow_duration T))]"
    by blast
  from po have port: "fst port = bot_port (bot_portcount (snd s)) ?d"
    "snd port = (snd s)\<lparr>bot_portcount := bot_portcount (snd s) + 1\<rparr>"
    by (auto simp: port_char)
  from print_char [OF pr] obtain ss where
    st': "st' = (snd bt)\<lparr>out := out (snd bt) @ [((victim, True), ss)]\<rparr>"
    and nth: "\<And>j s. j < 12 \<Longrightarrow> j < length (?U victim port pk bt synth) \<Longrightarrow>
              ?U victim port pk bt synth ! j = Str s \<Longrightarrow> ss ! j = s"
    by blast
  have len: "length synth = length (fst s)" using synth by simp
  have ne: "fst s \<noteq> []" using t by auto
  have "ss ! FIELD_STIME = stamp (t + 1000 * (10 * (1 + i)))"
    by (rule nth) (use t len synth in simp_all)
  moreover have "ss ! FIELD_DURATION = fmt3 (flow_duration T)"
    by (rule nth) (use t len synth in simp_all)
  moreover have "ss ! FIELD_ETIME = stamp (t + 1000 * (10 * (1 + i)) + 1000000 * flow_duration T)"
    by (rule nth) (use t len synth in simp_all)
  moreover have "ss ! FIELD_SRCIP = ip3 (own_network node) ?d"
    by (rule nth) (use t len synth ne in simp_all)
  moreover have "ss ! FIELD_SRCPORT = bot_port (bot_portcount (snd s)) ?d"
    by (rule nth) (use t len synth ne port in simp_all)
  moreover have "out (snd s') = out (snd s) @ [((victim, True), ss)]"
    "bot_portcount (snd s') = bot_portcount (snd s) + 1"
    using s' [symmetric] st' randint_keeps [OF pk] randint_keeps [OF bt] port by simp_all
  ultimately show ?thesis using t vn by blast
qed

lemma rand_octet1_char:
  "rand_octet1 tape = Inr r \<Longrightarrow> fst r \<notin> set RESERVED_CLASS_A \<and> 1 \<le> fst r \<and> fst r \<le> 255"
proof (induction tape)
  case Nil
  then show ?case by simp
next
  case (Cons x tape)
  have "0 \<le> int x mod 255" "int x mod 255 < 255" by simp_all
  then show ?case using Cons by (auto split: if_splits)
qed

lemma str_join4: "(a @ ''.'' @ b) @ ''.'' @ c @ ''.'' @ d = a @ ''.'' @ b @ ''.'' @ c @ ''.'' @ d"
  by simp

lemma gen_rand_ip_none:
  assumes "gen_rand_ip None st = Inr r"
  shows "octets4 (fst r) \<and> out (snd r) = out st \<and> bot_portcount (snd r) = bot_portcount st"
proof -
  obtain p o3 o4 where
    p: "rand_prefix None st = Inr p"
    and o3: "randint 1 255 (snd p) = Inr o3"
    and o4: "randint 1 255 (snd o3) = Inr o4"
    and r: "(fst p @ ''.'' @ str_int (fst o3) @ ''.'' @ str_int (fst o4), snd o4) = r"
    using assms [unfolded gen_rand_ip_def inv_simps] by (elim exE conjE) (rule that, assumption+)
  obtain o1 o2 where
    o1: "rand_octet1 (rand st) = Inr o1"
    and o2: "randint 1 255 (st\<lparr>rand := snd o1\<rparr>) = Inr o2"
    and pe: "(str_int (fst o1) @ ''.'' @ str_int (fst o2), snd o2) = p"
    using p [unfolded rand_prefix_def option.case inv_simps]
    by (elim exE conjE) (rule that, assumption+)
  have "fst r = str_int (fst o1) @ ''.'' @ str_int (fst o2) @ ''.'' @ str_int (fst o3) @ ''.''
        @ str_int (fst o4)"
    using r [symmetric] pe [symmetric] by simp
  then have "octets4 (fst r)"
    unfolding octets4_def
    using rand_octet1_char [OF o1] randint_keeps [OF o2] randint_keeps [OF o3] randint_keeps [OF o4]
    by blast
  moreover have "out (snd r) = out st" "bot_portcount (snd r) = bot_portcount st"
    using r [symmetric] pe [symmetric] randint_keeps [OF o2] randint_keeps [OF o3]
      randint_keeps [OF o4] by simp_all
  ultimately show ?thesis by simp
qed

lemma gen_rand_ip_some:
  assumes "gen_rand_ip (Some prefix) st = Inr r"
  shows "octets2 prefix (fst r) \<and> out (snd r) = out st \<and> bot_portcount (snd r) = bot_portcount st"
proof -
  obtain o3 o4 where
    o3: "randint 1 255 st = Inr o3"
    and o4: "randint 1 255 (snd o3) = Inr o4"
    and r: "(prefix @ ''.'' @ str_int (fst o3) @ ''.'' @ str_int (fst o4), snd o4) = r"
    using assms [unfolded gen_rand_ip_def rand_prefix_def option.case sum.case fst_conv snd_conv
        inv_simps]
    by (elim exE conjE) (rule that, assumption+)
  have "octets2 prefix (fst r)"
    unfolding octets2_def
    using r [symmetric] randint_keeps [OF o3] randint_keeps [OF o4] by auto
  moreover have "out (snd r) = out st" "bot_portcount (snd r) = bot_portcount st"
    using r [symmetric] randint_keeps [OF o3] randint_keeps [OF o4] by simp_all
  ultimately show ?thesis by simp
qed

lemma probe_flow_char:
  assumes "probe_flow T start node outf i s = Inr s'"
  shows "\<exists>ss t. out (snd s') = out (snd s) @ [(outf, ss)]
     \<and> bot_portcount (snd s') = bot_portcount (snd s)
     \<and> start = DateTime t
     \<and> ss ! FIELD_STIME = stamp (t + 1000 * (15 * (1 + i)))
     \<and> ss ! FIELD_DURATION = fmt3 (probes_duration T)
     \<and> ss ! FIELD_ETIME = stamp (t + 1000 * (15 * (1 + i)) + 1000000 * probes_duration T)
     \<and> probe_line node outf (outf, ss)"
proof -
  obtain synth src dst port st' where
    ft: "flow_times start (15 * (1 + i)) (probes_duration T) (fst s) = Inr synth"
    and src: "gen_rand_ip None (snd s) = Inr src"
    and dst: "gen_rand_ip (Some (own_network node)) (snd src) = Inr dst"
    and po: "randint 49152 65535 (snd dst) = Inr port"
    and pr: "print_rwcut_line (probe_fields T (fst src) (fst dst) (fst port) synth) outf (snd port)
               = Inr st'"
    and s': "(probe_fields T (fst src) (fst dst) (fst port) synth, st') = s'"
    using assms [unfolded probe_flow_def inv_simps] by (elim exE conjE) (rule that, assumption+)
  from flow_times_char [OF ft] obtain t where t: "start = DateTime t" "10 < length (fst s)"
    and synth: "synth = (fst s)[FIELD_STIME := Str (stamp (t + 1000 * (15 * (1 + i)))),
                      FIELD_DURATION := Str (fmt3 (probes_duration T)),
                      FIELD_ETIME := Str (stamp (t + 1000 * (15 * (1 + i)) + 1000000 * probes_duration T))]"
    by blast
  from print_char [OF pr] obtain ss where
    st': "st' = (snd port)\<lparr>out := out (snd port) @ [(outf, ss)]\<rparr>"
    and nth: "\<And>j s. j < 12 \<Longrightarrow> j < length (probe_fields T (fst src) (fst dst) (fst port) synth) \<Longrightarrow>
              probe_fields T (fst src) (fst dst) (fst port) synth ! j = Str s \<Longrightarrow> ss ! j = s"
    by blast
  have len: "length synth = length (fst s)" using synth by simp
  have ne: "fst s \<noteq> []" using t by auto
  have "ss ! FIELD_STIME = stamp (t + 1000 * (15 * (1 + i)))"
    by (rule nth) (use t len synth in \<open>simp_all add: probe_fields_def\<close>)
  moreover have "ss ! FIELD_DURATION = fmt3 (probes_duration T)"
    by (rule nth) (use t len synth in \<open>simp_all add: probe_fields_def\<close>)
  moreover have "ss ! FIELD_ETIME = stamp (t + 1000 * (15 * (1 + i)) + 1000000 * probes_duration T)"
    by (rule nth) (use t len synth in \<open>simp_all add: probe_fields_def\<close>)
  moreover have "ss ! FIELD_SRCIP = fst src"
    by (rule nth) (use t len synth ne in \<open>simp_all add: probe_fields_def\<close>)
  moreover have "ss ! FIELD_DSTIP = fst dst"
    by (rule nth) (use t len synth ne in \<open>simp_all add: probe_fields_def\<close>)
  moreover have "ss ! FIELD_PROTO = ''6''"
    by (rule nth) (use t len synth ne in \<open>simp_all add: probe_fields_def\<close>)
  moreover have "ss ! FIELD_FLAGS = '' S      ''"
    by (rule nth) (use t len synth ne in \<open>simp_all add: probe_fields_def\<close>)
  moreover have "out (snd s') = out (snd s) @ [(outf, ss)]"
    "bot_portcount (snd s') = bot_portcount (snd s)"
    using s' [symmetric] st' gen_rand_ip_none [OF src] gen_rand_ip_some [OF dst]
      randint_keeps [OF po] by simp_all
  ultimately show ?thesis
    using t gen_rand_ip_none [OF src] gen_rand_ip_some [OF dst]
    by (auto simp: probe_line_def)
qed


section \<open>Loops\<close>

lemma for_each_all:
  assumes "for_each body xs s = Inr s'"
    and "\<And>x a b. body x a = Inr b \<Longrightarrow> \<exists>es. out (snd b) = out (snd a) @ es \<and> list_all P es"
  shows "\<exists>es. out (snd s') = out (snd s) @ es \<and> list_all P es"
  using assms(1)
proof (induction xs arbitrary: s)
  case Nil
  then show ?case by simp
next
  case (Cons x xs)
  from Cons.prems obtain m where m: "body x s = Inr m" and r: "for_each body xs m = Inr s'"
    by (auto split: sum.splits)
  from assms(2) [OF m] obtain es where es: "out (snd m) = out (snd s) @ es" "list_all P es"
    by blast
  from Cons.IH [OF r] obtain es' where es': "out (snd s') = out (snd m) @ es'" "list_all P es'"
    by blast
  have "out (snd s') = out (snd s) @ (es @ es')" "list_all P (es @ es')"
    using es es' by simp_all
  then show ?case by blast
qed

lemma for_each_concat:
  assumes "for_each body xs s = Inr s'"
    and "\<And>x a b. body x a = Inr b \<Longrightarrow> \<exists>es. out (snd b) = out (snd a) @ es \<and> map f es = G x"
  shows "\<exists>es. out (snd s') = out (snd s) @ es \<and> map f es = concat (map G xs)"
  using assms(1)
proof (induction xs arbitrary: s)
  case Nil
  then show ?case by simp
next
  case (Cons x xs)
  from Cons.prems obtain m where m: "body x s = Inr m" and r: "for_each body xs m = Inr s'"
    by (auto split: sum.splits)
  from assms(2) [OF m] obtain es where es: "out (snd m) = out (snd s) @ es" "map f es = G x"
    by blast
  from Cons.IH [OF r] obtain es' where
    es': "out (snd s') = out (snd m) @ es'" "map f es' = concat (map G xs)"
    by blast
  have "out (snd s') = out (snd s) @ (es @ es')" "map f (es @ es') = concat (map G (x # xs))"
    using es es' by simp_all
  then show ?case by blast
qed

lemma bot_ports_length [simp]: "length (bot_ports c ds) = length ds"
  by (induction ds arbitrary: c) auto

lemma bot_ports_append:
  "bot_ports c (xs @ ys) = bot_ports c xs @ bot_ports (c + int (length xs)) ys"
  by (induction xs arbitrary: c) (auto simp: add.assoc)

lemma for_each_ports:
  assumes "for_each body xs s = Inr s'"
    and "\<And>x a b. body x a = Inr b \<Longrightarrow>
           \<exists>es. out (snd b) = out (snd a) @ es
             \<and> map f es = bot_ports (bot_portcount (snd a)) (D x)
             \<and> bot_portcount (snd b) = bot_portcount (snd a) + int (length es)"
  shows "\<exists>es. out (snd s') = out (snd s) @ es
           \<and> map f es = bot_ports (bot_portcount (snd s)) (concat (map D xs))
           \<and> bot_portcount (snd s') = bot_portcount (snd s) + int (length es)"
  using assms(1)
proof (induction xs arbitrary: s)
  case Nil
  then show ?case by simp
next
  case (Cons x xs)
  from Cons.prems obtain m where m: "body x s = Inr m" and r: "for_each body xs m = Inr s'"
    by (auto split: sum.splits)
  from assms(2) [OF m] obtain es where es: "out (snd m) = out (snd s) @ es"
    "map f es = bot_ports (bot_portcount (snd s)) (D x)"
    "bot_portcount (snd m) = bot_portcount (snd s) + int (length es)"
    by blast
  from Cons.IH [OF r] obtain es' where es': "out (snd s') = out (snd m) @ es'"
    "map f es' = bot_ports (bot_portcount (snd m)) (concat (map D xs))"
    "bot_portcount (snd s') = bot_portcount (snd m) + int (length es')"
    by blast
  have l: "length es = length (D x)" using es(2) [THEN arg_cong, of length] by simp
  have "out (snd s') = out (snd s) @ (es @ es')" using es es' by simp
  moreover have "map f (es @ es') = bot_ports (bot_portcount (snd s)) (concat (map D (x # xs)))"
    using es es' l by (simp add: bot_ports_append)
  moreover have "bot_portcount (snd s') = bot_portcount (snd s) + int (length (es @ es'))"
    using es es' by simp
  ultimately show ?case by blast
qed

lemma for_each_counter:
  assumes "for_each body xs s = Inr s'"
    and "\<And>x a b. body x a = Inr b \<Longrightarrow> bot_portcount (snd b) = bot_portcount (snd a)"
  shows "bot_portcount (snd s') = bot_portcount (snd s)"
  using assms(1)
proof (induction xs arbitrary: s)
  case Nil
  then show ?case by simp
next
  case (Cons x xs)
  from Cons.prems obtain m where m: "body x s = Inr m" and r: "for_each body xs m = Inr s'"
    by (auto split: sum.splits)
  show ?case using assms(2) [OF m] Cons.IH [OF r] by simp
qed

lemma timedI:
  "ss ! FIELD_STIME = stamp t \<Longrightarrow> ss ! FIELD_DURATION = fmt3 d
     \<Longrightarrow> ss ! FIELD_ETIME = stamp (t + 1000000 * d) \<Longrightarrow> timed d ss"
  unfolding timed_def by blast

lemma gen_amplifiers_timed:
  assumes "gen_amplifiers T parsed start inb node outf st = Inr st'"
  shows "\<exists>es. out st' = out st @ es \<and> list_all (\<lambda>e. timed (flow_duration T) (snd e)) es"
proof -
  from assms obtain s' where
    l: "for_each (amplifier_flow T start inb node outf) (py_range (amplifiers_per_node T))
          (parsed, st) = Inr s'" and s': "st' = snd s'"
    by (auto simp: gen_amplifiers_def split: sum.splits)
  have "\<exists>es. out (snd b) = out (snd a) @ es \<and> list_all (\<lambda>e. timed (flow_duration T) (snd e)) es"
    if "amplifier_flow T start inb node outf x a = Inr b" for x a b
  proof -
    from amplifier_flow_char [OF that] obtain ss t where
      "out (snd b) = out (snd a) @ [(outf, ss)]" "timed (flow_duration T) ss"
      by (blast intro: timedI)
    then show ?thesis by (intro exI [of _ "[(outf, ss)]"]) simp
  qed
  from for_each_all [OF l this] show ?thesis using s' by simp
qed

lemma gen_bots_timed:
  assumes "gen_bots T parsed start inb node outf st = Inr st'"
  shows "\<exists>es. out st' = out st @ es \<and> list_all (\<lambda>e. timed (flow_duration T) (snd e)) es"
proof (cases inb)
  case True
  with assms show ?thesis by (simp add: gen_bots_def)
next
  case False
  with assms obtain s' where
    l: "for_each (bot_flow T start node outf) (py_range (bots_per_node T)) (parsed, st) = Inr s'"
    and s': "st' = snd s'"
    by (auto simp: gen_bots_def split: sum.splits)
  have "\<exists>es. out (snd b) = out (snd a) @ es \<and> list_all (\<lambda>e. timed (flow_duration T) (snd e)) es"
    if "bot_flow T start node outf x a = Inr b" for x a b
  proof -
    from bot_flow_char [OF that] obtain ss t where
      "out (snd b) = out (snd a) @ [(outf, ss)]" "timed (flow_duration T) ss"
      by (blast intro: timedI)
    then show ?thesis by (intro exI [of _ "[(outf, ss)]"]) simp
  qed
  from for_each_all [OF l this] show ?thesis using s' by simp
qed

lemma victim_amplifiers_timed:
  assumes "victim_amplifiers T start s = Inr s'"
  shows "\<exists>es. out (snd s') = out (snd s) @ es \<and> list_all (\<lambda>e. timed (flow_duration T) (snd e)) es"
proof -
  have inner: "\<exists>es. out (snd b) = out (snd a) @ es \<and> list_all (\<lambda>e. timed (flow_duration T) (snd e)) es"
    if "victim_amplifier_flow T start n x a = Inr b" for n x a b
  proof -
    from victim_amplifier_flow_char [OF that] obtain ss t v where
      "out (snd b) = out (snd a) @ [((v, True), ss)]" "timed (flow_duration T) ss"
      by (blast intro: timedI)
    then show ?thesis by (intro exI [of _ "[((v, True), ss)]"]) simp
  qed
  have "\<exists>es. out (snd b) = out (snd a) @ es \<and> list_all (\<lambda>e. timed (flow_duration T) (snd e)) es"
    if "(if has_amplifiers n
         then for_each (victim_amplifier_flow T start n) (py_range (amplifiers_per_node T)) a
         else Inr a) = Inr b" for n a b
  proof (cases "has_amplifiers n")
    case True
    with that show ?thesis using for_each_all [OF _ inner] by simp
  next
    case False
    with that show ?thesis by auto
  qed
  from for_each_all [OF assms [unfolded victim_amplifiers_def] this] show ?thesis .
qed

lemma victim_bots_timed:
  assumes "victim_bots T start s = Inr s'"
  shows "\<exists>es. out (snd s') = out (snd s) @ es \<and> list_all (\<lambda>e. timed (flow_duration T) (snd e)) es"
proof -
  have inner: "\<exists>es. out (snd b) = out (snd a) @ es \<and> list_all (\<lambda>e. timed (flow_duration T) (snd e)) es"
    if "victim_bot_flow T start n x a = Inr b" for n x a b
  proof -
    from victim_bot_flow_char [OF that] obtain ss t v where
      "out (snd b) = out (snd a) @ [((v, True), ss)]" "timed (flow_duration T) ss"
      by (blast intro: timedI)
    then show ?thesis by (intro exI [of _ "[((v, True), ss)]"]) simp
  qed
  have "\<exists>es. out (snd b) = out (snd a) @ es \<and> list_all (\<lambda>e. timed (flow_duration T) (snd e)) es"
    if "(if has_bots n
         then for_each (victim_bot_flow T start n) (py_range (bots_per_node T)) a
         else Inr a) = Inr b" for n a b
  proof (cases "has_bots n")
    case True
    with that show ?thesis using for_each_all [OF _ inner] by simp
  next
    case False
    with that show ?thesis by auto
  qed
  from for_each_all [OF assms [unfolded victim_bots_def] this] show ?thesis .
qed

lemma grows_trans:
  assumes "\<exists>es. out b = out a @ es \<and> list_all P es" and "\<exists>es. out c = out b @ es \<and> list_all P es"
  shows "\<exists>es. out c = out a @ es \<and> list_all P es"
proof -
  from assms obtain es es' where "out b = out a @ es" "list_all P es"
    "out c = out b @ es'" "list_all P es'" by blast
  then have "out c = out a @ (es @ es')" "list_all P (es @ es')" by simp_all
  then show ?thesis by blast
qed

lemma grows_mono:
  assumes "\<exists>es. out b = out a @ es \<and> list_all P es" and "\<And>e. P e \<Longrightarrow> Q e"
  shows "\<exists>es. out b = out a @ es \<and> list_all Q es"
  using assms by (auto simp: list_all_iff)

lemma grows_refl: "\<exists>es. out a = out a @ es \<and> list_all P es"
  by (intro exI [of _ "[]"]) simp

lemma gen_victim_timed:
  assumes "gen_victim T parsed start inb st = Inr st'"
  shows "\<exists>es. out st' = out st @ es \<and> list_all (\<lambda>e. timed (flow_duration T) (snd e)) es"
proof (cases inb)
  case False
  with assms show ?thesis by (simp add: gen_victim_def)
next
  case True
  with assms obtain s1 s2 where a: "victim_amplifiers T start (parsed, st) = Inr s1"
    and b: "victim_bots T start s1 = Inr s2" and s: "st' = snd s2"
    by (auto simp: gen_victim_def split: sum.splits)
  show ?thesis
    using grows_trans [OF victim_amplifiers_timed [OF a] victim_bots_timed [OF b]] s by simp
qed

lemma gen_probes_lines:
  assumes "gen_probes T parsed start inb node outf st = Inr st'"
  shows "\<exists>es. out st' = out st @ es
     \<and> list_all (\<lambda>e. timed (probes_duration T) (snd e) \<and> probe_line node outf e) es"
proof (cases inb)
  case False
  with assms show ?thesis by (simp add: gen_probes_def)
next
  case True
  with assms obtain s' where
    l: "for_each (probe_flow T start node outf) (py_range (probes_per_timestep T)) (parsed, st)
          = Inr s'" and s': "st' = snd s'"
    by (auto simp: gen_probes_def split: sum.splits)
  have "\<exists>es. out (snd b) = out (snd a) @ es
      \<and> list_all (\<lambda>e. timed (probes_duration T) (snd e) \<and> probe_line node outf e) es"
    if "probe_flow T start node outf x a = Inr b" for x a b
  proof -
    from probe_flow_char [OF that] obtain ss t where
      "out (snd b) = out (snd a) @ [(outf, ss)]" "timed (probes_duration T) ss"
      "probe_line node outf (outf, ss)"
      by (blast intro: timedI)
    then show ?thesis by (intro exI [of _ "[(outf, ss)]"]) simp
  qed
  from for_each_all [OF l this] show ?thesis using s' by simp
qed


section \<open>Addresses, ports and probes of the generators\<close>

lemma concat_filter:
  "concat (map (\<lambda>n. if P n then G n else []) xs) = concat (map G (filter P xs))"
  by (induction xs) auto

lemma digit_val_char: "d < 10 \<Longrightarrow> digit_val (digit_char d) = int d"
proof -
  assume "d < 10"
  then have "d = 0 \<or> d = 1 \<or> d = 2 \<or> d = 3 \<or> d = 4 \<or> d = 5 \<or> d = 6 \<or> d = 7 \<or> d = 8 \<or> d = 9"
    by arith
  then show ?thesis
    by (elim disjE) (simp_all add: digit_val_def digit_char_def)
qed

lemma digit_char_no_dot: "d < 10 \<Longrightarrow> digit_char d \<noteq> CHR ''.''"
proof -
  assume "d < 10"
  then have "d = 0 \<or> d = 1 \<or> d = 2 \<or> d = 3 \<or> d = 4 \<or> d = 5 \<or> d = 6 \<or> d = 7 \<or> d = 8 \<or> d = 9"
    by arith
  then show ?thesis
    by (elim disjE) (simp_all add: digit_char_def)
qed

lemma num_val_snoc: "num_val (s @ [c]) = 10 * num_val s + digit_val c"
  by (simp add: num_val_def)

lemma num_val_digits: "num_val (digits n) = int n"
proof (induction n rule: digits.induct)
  case (1 n)
  show ?case
  proof (cases "n < 10")
    case True
    then show ?thesis
      by (subst digits.simps) (simp add: num_val_def digit_val_char)
  next
    case False
    then have "num_val (digits n) = 10 * num_val (digits (n div 10)) + digit_val (digit_char (n mod 10))"
      by (subst digits.simps) (simp add: num_val_snoc)
    also have "\<dots> = 10 * int (n div 10) + int (n mod 10)"
      using 1 False by (simp add: digit_val_char)
    also have "\<dots> = int n" by presburger
    finally show ?thesis .
  qed
qed

lemma digits_no_dot: "c \<in> set (digits n) \<Longrightarrow> c \<noteq> CHR ''.''"
proof (induction n rule: digits.induct)
  case (1 n)
  show ?case
  proof (cases "n < 10")
    case True
    with 1(2) show ?thesis
      by (subst (asm) digits.simps) (simp add: digit_char_no_dot)
  next
    case False
    with 1(2) have "c \<in> set (digits (n div 10)) \<or> c = digit_char (n mod 10)"
      by (subst (asm) digits.simps) auto
    moreover have "digit_char (n mod 10) \<noteq> CHR ''.''" by (rule digit_char_no_dot) simp
    ultimately show ?thesis using 1(1) [OF False] by auto
  qed
qed

lemma first_octet_str: "0 \<le> a \<Longrightarrow> first_octet (str_int a @ CHR ''.'' # r) = a"
proof -
  assume a: "0 \<le> a"
  have "takeWhile (\<lambda>c. c \<noteq> CHR ''.'') (digits (nat a) @ CHR ''.'' # r) = digits (nat a)"
    by (subst takeWhile_append2) (auto dest: digits_no_dot)
  then show ?thesis using a by (simp add: first_octet_def str_int_def num_val_digits)
qed

lemma takeWhile_stop: "\<not> P y \<Longrightarrow> takeWhile P (xs @ y # ys) = takeWhile P xs"
  by (induction xs) auto

lemma first_octet_prefix: "first_octet (p @ CHR ''.'' # r) = first_octet p"
  by (simp add: first_octet_def takeWhile_stop)

lemma octets4_first: "octets4 a \<Longrightarrow> first_octet a \<notin> set RESERVED_CLASS_A"
  unfolding octets4_def by (auto simp: first_octet_str)

lemma octets2_first: "octets2 p a \<Longrightarrow> first_octet a = first_octet p"
  unfolding octets2_def by (auto simp: first_octet_prefix)

lemma length_py_range [simp]: "length (py_range n) = nat n"
  by (simp add: py_range_def)

lemma out_unique: "out b = out a @ es \<Longrightarrow> out b = out a @ es' \<Longrightarrow> es = es'"
  by simp

lemma gen_probes_char:
  assumes "gen_probes T parsed start inb node outf st = Inr st'"
  shows "\<exists>es. out st' = out st @ es
     \<and> list_all (\<lambda>e. timed (probes_duration T) (snd e) \<and> probe_line node outf e) es
     \<and> length es = (if inb then nat (probes_per_timestep T) else 0)
     \<and> bot_portcount st' = bot_portcount st"
proof (cases inb)
  case False
  with assms show ?thesis by (simp add: gen_probes_def)
next
  case True
  with assms obtain s' where
    l: "for_each (probe_flow T start node outf) (py_range (probes_per_timestep T)) (parsed, st)
          = Inr s'" and s': "st' = snd s'"
    by (auto simp: gen_probes_def split: sum.splits)
  from gen_probes_lines [OF assms] obtain es where es: "out st' = out st @ es"
    "list_all (\<lambda>e. timed (probes_duration T) (snd e) \<and> probe_line node outf e) es"
    by blast
  have step: "\<exists>es. out (snd b) = out (snd a) @ es \<and> map (\<lambda>e. ()) es = [()]"
    if "probe_flow T start node outf x a = Inr b" for x a b
  proof -
    from probe_flow_char [OF that] obtain ss where "out (snd b) = out (snd a) @ [(outf, ss)]"
      by blast
    then show ?thesis by (intro exI [of _ "[(outf, ss)]"]) simp
  qed
  have "\<exists>es. out (snd s') = out (snd (parsed, st)) @ es
      \<and> map (\<lambda>e. ()) es = concat (map (\<lambda>x. [()]) (py_range (probes_per_timestep T)))"
    by (rule for_each_concat [where G = "\<lambda>x. [()]", OF l]) (erule step)
  then obtain es' where es': "out (snd s') = out (snd (parsed, st)) @ es'"
    "map (\<lambda>e. ()) es' = concat (map (\<lambda>x. [()]) (py_range (probes_per_timestep T)))"
    by blast
  have "length es' = nat (probes_per_timestep T)"
    using es'(2) [THEN arg_cong, of length] by (simp add: length_concat o_def sum_list_triv)
  moreover have "es' = es" using es(1) es'(1) s' by simp
  moreover have "bot_portcount (snd s') = bot_portcount (snd (parsed, st))"
  proof (rule for_each_counter [OF l])
    fix x a b assume "probe_flow T start node outf x a = Inr b"
    from probe_flow_char [OF this] show "bot_portcount (snd b) = bot_portcount (snd a)" by blast
  qed
  ultimately show ?thesis using es s' True by auto
qed

lemma gen_amplifiers_char:
  assumes "gen_amplifiers T parsed start inb node outf st = Inr st'"
  shows "\<exists>es. out st' = out st @ es
     \<and> map (\<lambda>e. snd e ! (if inb then FIELD_DSTIP else FIELD_SRCIP)) es
         = map (amp_address (own_network node)) (py_range (amplifiers_per_node T))
     \<and> bot_portcount st' = bot_portcount st"
proof -
  from assms obtain s' where
    l: "for_each (amplifier_flow T start inb node outf) (py_range (amplifiers_per_node T))
          (parsed, st) = Inr s'" and s': "st' = snd s'"
    by (auto simp: gen_amplifiers_def split: sum.splits)
  have step: "\<exists>es. out (snd b) = out (snd a) @ es
      \<and> map (\<lambda>e. snd e ! (if inb then FIELD_DSTIP else FIELD_SRCIP)) es
          = [amp_address (own_network node) x]"
    if "amplifier_flow T start inb node outf x a = Inr b" for x a b
  proof -
    from amplifier_flow_char [OF that] obtain ss where
      "out (snd b) = out (snd a) @ [(outf, ss)]"
      "ss ! (if inb then FIELD_DSTIP else FIELD_SRCIP)
          = ip3 (own_network node) (md5it (own_network node @ str_int x))"
      by blast
    then show ?thesis
      by (intro exI [of _ "[(outf, ss)]"]) (simp add: amp_address_def ip3_def)
  qed
  have "\<exists>es. out (snd s') = out (snd (parsed, st)) @ es
      \<and> map (\<lambda>e. snd e ! (if inb then FIELD_DSTIP else FIELD_SRCIP)) es
          = concat (map (\<lambda>x. [amp_address (own_network node) x]) (py_range (amplifiers_per_node T)))"
    by (rule for_each_concat [where G = "\<lambda>x. [amp_address (own_network node) x]", OF l])
       (erule step)
  then obtain es where "out (snd s') = out (snd (parsed, st)) @ es"
    "map (\<lambda>e. snd e ! (if inb then FIELD_DSTIP else FIELD_SRCIP)) es
       = concat (map (\<lambda>x. [amp_address (own_network node) x]) (py_range (amplifiers_per_node T)))"
    by blast
  moreover have "bot_portcount (snd s') = bot_portcount (snd (parsed, st))"
  proof (rule for_each_counter [OF l])
    fix x a b assume "amplifier_flow T start inb node outf x a = Inr b"
    from amplifier_flow_char [OF this] show "bot_portcount (snd b) = bot_portcount (snd a)" by blast
  qed
  ultimately show ?thesis using s' by (auto simp: concat_map_singleton)
qed

lemma gen_bots_char:
  assumes "gen_bots T parsed start False node outf st = Inr st'"
  shows "\<exists>es. out st' = out st @ es
     \<and> map (\<lambda>e. snd e ! FIELD_SRCIP) es
         = map (bot_address (own_network node)) (py_range (bots_per_node T))
     \<and> map (\<lambda>e. snd e ! FIELD_SRCPORT) es
         = bot_ports (bot_portcount st)
             (map (\<lambda>i. md5it (own_network node @ str_int i @ ''bot'')) (py_range (bots_per_node T)))
     \<and> bot_portcount st' = bot_portcount st + int (length es)"
proof -
  from assms obtain s' where
    l: "for_each (bot_flow T start node outf) (py_range (bots_per_node T)) (parsed, st) = Inr s'"
    and s': "st' = snd s'"
    by (auto simp: gen_bots_def split: sum.splits)
  have step: "\<exists>es. out (snd b) = out (snd a) @ es
      \<and> map (\<lambda>e. snd e ! FIELD_SRCIP) es = [bot_address (own_network node) x]"
    if "bot_flow T start node outf x a = Inr b" for x a b
  proof -
    from bot_flow_char [OF that] obtain ss where
      "out (snd b) = out (snd a) @ [(outf, ss)]"
      "ss ! FIELD_SRCIP = ip3 (own_network node) (md5it (own_network node @ str_int x @ ''bot''))"
      by blast
    then show ?thesis
      by (intro exI [of _ "[(outf, ss)]"]) (simp add: bot_address_def ip3_def)
  qed
  have "\<exists>es. out (snd s') = out (snd (parsed, st)) @ es
      \<and> map (\<lambda>e. snd e ! FIELD_SRCIP) es
          = concat (map (\<lambda>x. [bot_address (own_network node) x]) (py_range (bots_per_node T)))"
    by (rule for_each_concat [where G = "\<lambda>x. [bot_address (own_network node) x]", OF l])
       (erule step)
  then obtain es where es: "out (snd s') = out (snd (parsed, st)) @ es"
    "map (\<lambda>e. snd e ! FIELD_SRCIP) es
       = concat (map (\<lambda>x. [bot_address (own_network node) x]) (py_range (bots_per_node T)))"
    by blast
  have stepp: "\<exists>es. out (snd b) = out (snd a) @ es
      \<and> map (\<lambda>e. snd e ! FIELD_SRCPORT) es
          = bot_ports (bot_portcount (snd a)) [md5it (own_network node @ str_int x @ ''bot'')]
      \<and> bot_portcount (snd b) = bot_portcount (snd a) + int (length es)"
    if "bot_flow T start node outf x a = Inr b" for x a b
  proof -
    from bot_flow_char [OF that] obtain ss where
      "out (snd b) = out (snd a) @ [(outf, ss)]"
      "bot_portcount (snd b) = bot_portcount (snd a) + 1"
      "ss ! FIELD_SRCPORT
         = bot_port (bot_portcount (snd a)) (md5it (own_network node @ str_int x @ ''bot''))"
      by blast
    then show ?thesis by (intro exI [of _ "[(outf, ss)]"]) simp
  qed
  have "\<exists>es. out (snd s') = out (snd (parsed, st)) @ es
      \<and> map (\<lambda>e. snd e ! FIELD_SRCPORT) es
          = bot_ports (bot_portcount (snd (parsed, st)))
              (concat (map (\<lambda>x. [md5it (own_network node @ str_int x @ ''bot'')])
                 (py_range (bots_per_node T))))
      \<and> bot_portcount (snd s') = bot_portcount (snd (parsed, st)) + int (length es)"
    by (rule for_each_ports [where D = "\<lambda>x. [md5it (own_network node @ str_int x @ ''bot'')]", OF l])
       (erule stepp)
  then obtain es' where es': "out (snd s') = out (snd (parsed, st)) @ es'"
    "map (\<lambda>e. snd e ! FIELD_SRCPORT) es'
       = bot_ports (bot_portcount (snd (parsed, st)))
           (concat (map (\<lambda>x. [md5it (own_network node @ str_int x @ ''bot'')])
              (py_range (bots_per_node T))))"
    "bot_portcount (snd s') = bot_portcount (snd (parsed, st)) + int (length es')"
    by blast
  have "es' = es" using es(1) es'(1) by simp
  then show ?thesis using es es' s' by (auto simp: concat_map_singleton)
qed

lemma victim_amplifiers_char:
  assumes "victim_amplifiers T start s = Inr s'"
  shows "\<exists>es. out (snd s') = out (snd s) @ es
     \<and> map (\<lambda>e. snd e ! FIELD_SRCIP) es
         = concat (map (\<lambda>n. map (amp_address (own_network n)) (py_range (amplifiers_per_node T)))
             (filter has_amplifiers (nodelist T)))
     \<and> bot_portcount (snd s') = bot_portcount (snd s)"
proof -
  have inner: "\<exists>es. out (snd b) = out (snd a) @ es
      \<and> map (\<lambda>e. snd e ! FIELD_SRCIP) es = [amp_address (own_network n) x]"
    if "victim_amplifier_flow T start n x a = Inr b" for n x a b
  proof -
    from victim_amplifier_flow_char [OF that] obtain ss v where
      "out (snd b) = out (snd a) @ [((v, True), ss)]"
      "ss ! FIELD_SRCIP = ip3 (own_network n) (md5it (own_network n @ str_int x))"
      by blast
    then show ?thesis
      by (intro exI [of _ "[((v, True), ss)]"]) (simp add: amp_address_def ip3_def)
  qed
  have innerc: "bot_portcount (snd b) = bot_portcount (snd a)"
    if "victim_amplifier_flow T start n x a = Inr b" for n x a b
    using victim_amplifier_flow_char [OF that] by blast
  have outer: "\<exists>es. out (snd b) = out (snd a) @ es
      \<and> map (\<lambda>e. snd e ! FIELD_SRCIP) es
          = (if has_amplifiers n
             then map (amp_address (own_network n)) (py_range (amplifiers_per_node T)) else [])"
    if "(if has_amplifiers n
         then for_each (victim_amplifier_flow T start n) (py_range (amplifiers_per_node T)) a
         else Inr a) = Inr b" for n a b
  proof (cases "has_amplifiers n")
    case True
    with that have l: "for_each (victim_amplifier_flow T start n) (py_range (amplifiers_per_node T)) a
      = Inr b" by simp
    have "\<exists>es. out (snd b) = out (snd a) @ es
      \<and> map (\<lambda>e. snd e ! FIELD_SRCIP) es
          = concat (map (\<lambda>x. [amp_address (own_network n) x]) (py_range (amplifiers_per_node T)))"
      by (rule for_each_concat [where G = "\<lambda>x. [amp_address (own_network n) x]", OF l])
         (erule inner)
    with True show ?thesis by (simp add: concat_map_singleton)
  next
    case False
    with that show ?thesis by auto
  qed
  have "\<exists>es. out (snd s') = out (snd s) @ es
     \<and> map (\<lambda>e. snd e ! FIELD_SRCIP) es
         = concat (map (\<lambda>n. if has_amplifiers n
             then map (amp_address (own_network n)) (py_range (amplifiers_per_node T)) else [])
             (nodelist T))"
    by (rule for_each_concat [where G = "\<lambda>n. if has_amplifiers n
             then map (amp_address (own_network n)) (py_range (amplifiers_per_node T)) else []",
         OF assms [unfolded victim_amplifiers_def]]) (erule outer)
  then have "\<exists>es. out (snd s') = out (snd s) @ es
     \<and> map (\<lambda>e. snd e ! FIELD_SRCIP) es
         = concat (map (\<lambda>n. map (amp_address (own_network n)) (py_range (amplifiers_per_node T)))
             (filter has_amplifiers (nodelist T)))"
    by (simp add: concat_filter)
  moreover have "bot_portcount (snd s') = bot_portcount (snd s)"
  proof (rule for_each_counter [OF assms [unfolded victim_amplifiers_def]])
    fix n a b
    assume h: "(if has_amplifiers n
         then for_each (victim_amplifier_flow T start n) (py_range (amplifiers_per_node T)) a
         else Inr a) = Inr b"
    show "bot_portcount (snd b) = bot_portcount (snd a)"
    proof (cases "has_amplifiers n")
      case True
      with h have l: "for_each (victim_amplifier_flow T start n)
          (py_range (amplifiers_per_node T)) a = Inr b" by simp
      show ?thesis by (rule for_each_counter [OF l]) (erule innerc)
    next
      case False
      with h show ?thesis by auto
    qed
  qed
  ultimately show ?thesis by blast
qed

lemma victim_bots_char:
  assumes "victim_bots T start s = Inr s'"
  shows "\<exists>es. out (snd s') = out (snd s) @ es
     \<and> map (\<lambda>e. snd e ! FIELD_SRCIP) es
         = concat (map (\<lambda>n. map (bot_address (own_network n)) (py_range (bots_per_node T)))
             (filter has_bots (nodelist T)))
     \<and> map (\<lambda>e. snd e ! FIELD_SRCPORT) es
         = bot_ports (bot_portcount (snd s))
             (concat (map (\<lambda>n. map (\<lambda>i. md5it (own_network n @ str_int i @ ''bot''))
                                (py_range (bots_per_node T)))
                (filter has_bots (nodelist T))))
     \<and> bot_portcount (snd s') = bot_portcount (snd s) + int (length es)"
proof -
  have inner: "\<exists>es. out (snd b) = out (snd a) @ es
      \<and> map (\<lambda>e. snd e ! FIELD_SRCIP) es = [bot_address (own_network n) x]"
    if "victim_bot_flow T start n x a = Inr b" for n x a b
  proof -
    from victim_bot_flow_char [OF that] obtain ss v where
      "out (snd b) = out (snd a) @ [((v, True), ss)]"
      "ss ! FIELD_SRCIP = ip3 (own_network n) (md5it (own_network n @ str_int x @ ''bot''))"
      by blast
    then show ?thesis
      by (intro exI [of _ "[((v, True), ss)]"]) (simp add: bot_address_def ip3_def)
  qed
  have innerp: "\<exists>es. out (snd b) = out (snd a) @ es
      \<and> map (\<lambda>e. snd e ! FIELD_SRCPORT) es
          = bot_ports (bot_portcount (snd a)) [md5it (own_network n @ str_int x @ ''bot'')]
      \<and> bot_portcount (snd b) = bot_portcount (snd a) + int (length es)"
    if "victim_bot_flow T start n x a = Inr b" for n x a b
  proof -
    from victim_bot_flow_char [OF that] obtain ss v where
      "out (snd b) = out (snd a) @ [((v, True), ss)]"
      "bot_portcount (snd b) = bot_portcount (snd a) + 1"
      "ss ! FIELD_SRCPORT
         = bot_port (bot_portcount (snd a)) (md5it (own_network n @ str_int x @ ''bot''))"
      by blast
    then show ?thesis by (intro exI [of _ "[((v, True), ss)]"]) simp
  qed
  have outer: "\<exists>es. out (snd b) = out (snd a) @ es
      \<and> map (\<lambda>e. snd e ! FIELD_SRCIP) es
          = (if has_bots n
             then map (bot_address (own_network n)) (py_range (bots_per_node T)) else [])"
    if "(if has_bots n
         then for_each (victim_bot_flow T start n) (py_range (bots_per_node T)) a
         else Inr a) = Inr b" for n a b
  proof (cases "has_bots n")
    case True
    with that have l: "for_each (victim_bot_flow T start n) (py_range (bots_per_node T)) a = Inr b"
      by simp
    have "\<exists>es. out (snd b) = out (snd a) @ es
      \<and> map (\<lambda>e. snd e ! FIELD_SRCIP) es
          = concat (map (\<lambda>x. [bot_address (own_network n) x]) (py_range (bots_per_node T)))"
      by (rule for_each_concat [where G = "\<lambda>x. [bot_address (own_network n) x]", OF l])
         (erule inner)
    with True show ?thesis by (simp add: concat_map_singleton)
  next
    case False
    with that show ?thesis by auto
  qed
  have "\<exists>es. out (snd s') = out (snd s) @ es
     \<and> map (\<lambda>e. snd e ! FIELD_SRCIP) es
         = concat (map (\<lambda>n. if has_bots n
             then map (bot_address (own_network n)) (py_range (bots_per_node T)) else [])
             (nodelist T))"
    by (rule for_each_concat [where G = "\<lambda>n. if has_bots n
             then map (bot_address (own_network n)) (py_range (bots_per_node T)) else []",
         OF assms [unfolded victim_bots_def]]) (erule outer)
  then obtain es where es: "out (snd s') = out (snd s) @ es"
    "map (\<lambda>e. snd e ! FIELD_SRCIP) es
         = concat (map (\<lambda>n. map (bot_address (own_network n)) (py_range (bots_per_node T)))
             (filter has_bots (nodelist T)))"
    by (auto simp: concat_filter)
  have outerp: "\<exists>es. out (snd b) = out (snd a) @ es
      \<and> map (\<lambda>e. snd e ! FIELD_SRCPORT) es
          = bot_ports (bot_portcount (snd a))
              (if has_bots n
               then map (\<lambda>i. md5it (own_network n @ str_int i @ ''bot'')) (py_range (bots_per_node T))
               else [])
      \<and> bot_portcount (snd b) = bot_portcount (snd a) + int (length es)"
    if "(if has_bots n
         then for_each (victim_bot_flow T start n) (py_range (bots_per_node T)) a
         else Inr a) = Inr b" for n a b
  proof (cases "has_bots n")
    case True
    with that have l: "for_each (victim_bot_flow T start n) (py_range (bots_per_node T)) a = Inr b"
      by simp
    have "\<exists>es. out (snd b) = out (snd a) @ es
      \<and> map (\<lambda>e. snd e ! FIELD_SRCPORT) es
          = bot_ports (bot_portcount (snd a))
              (concat (map (\<lambda>x. [md5it (own_network n @ str_int x @ ''bot'')])
                 (py_range (bots_per_node T))))
      \<and> bot_portcount (snd b) = bot_portcount (snd a) + int (length es)"
      by (rule for_each_ports [where D = "\<lambda>x. [md5it (own_network n @ str_int x @ ''bot'')]", OF l])
         (erule innerp)
    with True show ?thesis by (simp add: concat_map_singleton)
  next
    case False
    with that show ?thesis by auto
  qed
  have "\<exists>es. out (snd s') = out (snd s) @ es
      \<and> map (\<lambda>e. snd e ! FIELD_SRCPORT) es
          = bot_ports (bot_portcount (snd s))
              (concat (map (\<lambda>n. if has_bots n
                 then map (\<lambda>i. md5it (own_network n @ str_int i @ ''bot'')) (py_range (bots_per_node T))
                 else []) (nodelist T)))
      \<and> bot_portcount (snd s') = bot_portcount (snd s) + int (length es)"
    by (rule for_each_ports [where D = "\<lambda>n. if has_bots n
               then map (\<lambda>i. md5it (own_network n @ str_int i @ ''bot'')) (py_range (bots_per_node T))
               else []", OF assms [unfolded victim_bots_def]]) (erule outerp)
  then obtain es' where es': "out (snd s') = out (snd s) @ es'"
    "map (\<lambda>e. snd e ! FIELD_SRCPORT) es'
         = bot_ports (bot_portcount (snd s))
             (concat (map (\<lambda>n. map (\<lambda>i. md5it (own_network n @ str_int i @ ''bot''))
                                (py_range (bots_per_node T)))
                (filter has_bots (nodelist T))))"
    "bot_portcount (snd s') = bot_portcount (snd s) + int (length es')"
    by (auto simp: concat_filter)
  have "es' = es" using es(1) es'(1) by simp
  then show ?thesis using es es' by blast
qed

lemma gen_victim_char:
  assumes "gen_victim T parsed start True st = Inr st'"
  shows "\<exists>es1 es2. out st' = out st @ es1 @ es2
     \<and> map (\<lambda>e. snd e ! FIELD_SRCIP) es1
         = concat (map (\<lambda>n. map (amp_address (own_network n)) (py_range (amplifiers_per_node T)))
             (filter has_amplifiers (nodelist T)))
     \<and> map (\<lambda>e. snd e ! FIELD_SRCIP) es2
         = concat (map (\<lambda>n. map (bot_address (own_network n)) (py_range (bots_per_node T)))
             (filter has_bots (nodelist T)))
     \<and> map (\<lambda>e. snd e ! FIELD_SRCPORT) es2
         = bot_ports (bot_portcount st)
             (concat (map (\<lambda>n. map (\<lambda>i. md5it (own_network n @ str_int i @ ''bot''))
                                (py_range (bots_per_node T)))
                (filter has_bots (nodelist T))))
     \<and> bot_portcount st' = bot_portcount st + int (length es2)"
proof -
  from assms obtain s1 s2 where a: "victim_amplifiers T start (parsed, st) = Inr s1"
    and b: "victim_bots T start s1 = Inr s2" and s: "st' = snd s2"
    by (auto simp: gen_victim_def split: sum.splits)
  from victim_amplifiers_char [OF a] obtain es1 where es1: "out (snd s1) = out st @ es1"
    "map (\<lambda>e. snd e ! FIELD_SRCIP) es1
         = concat (map (\<lambda>n. map (amp_address (own_network n)) (py_range (amplifiers_per_node T)))
             (filter has_amplifiers (nodelist T)))"
    "bot_portcount (snd s1) = bot_portcount st"
    by auto
  from victim_bots_char [OF b] obtain es2 where es2: "out (snd s2) = out (snd s1) @ es2"
    "map (\<lambda>e. snd e ! FIELD_SRCIP) es2
         = concat (map (\<lambda>n. map (bot_address (own_network n)) (py_range (bots_per_node T)))
             (filter has_bots (nodelist T)))"
    "map (\<lambda>e. snd e ! FIELD_SRCPORT) es2
         = bot_ports (bot_portcount (snd s1))
             (concat (map (\<lambda>n. map (\<lambda>i. md5it (own_network n @ str_int i @ ''bot''))
                                (py_range (bots_per_node T)))
                (filter has_bots (nodelist T))))"
    "bot_portcount (snd s2) = bot_portcount (snd s1) + int (length es2)"
    by blast
  have "out st' = out st @ es1 @ es2" using es1 es2 s by simp
  then show ?thesis using es1 es2 s by (intro exI [of _ es1] exI [of _ es2]) simp
qed


section \<open>The generators at concrete inputs\<close>

lemma dgA0: "md5it ''172.160'' = [10, 13, 102, 67, 152, 216, 131, 190, 50, 44, 141, 20, 237, 162, 168, 153]"
  by (simp add: md5_eval)

lemma dgA0b: "md5it ''172.160bot'' = [224, 103, 233, 123, 70, 176, 58, 181, 76, 24, 167, 26, 75, 22, 137, 142]"
  by (simp add: md5_eval)

lemma dgA1b: "md5it ''172.161bot'' = [97, 67, 50, 225, 84, 113, 106, 29, 218, 10, 149, 199, 91, 67, 130, 177]"
  by (simp add: md5_eval)

lemma stamp_010: "stamp 63839664000010000 = ''2024/01/01T00:00:00.010''"
  by (simp add: dt_eval)

lemma stamp_015: "stamp 63839664000015000 = ''2024/01/01T00:00:00.015''"
  by (simp add: dt_eval)

lemma stamp_020: "stamp 63839664000020000 = ''2024/01/01T00:00:00.020''"
  by (simp add: dt_eval)

lemma stamp_5015: "stamp 63839664005015000 = ''2024/01/01T00:00:05.015''"
  by (simp add: dt_eval)

lemma stamp_55010: "stamp 63839664055010000 = ''2024/01/01T00:00:55.010''"
  by (simp add: dt_eval)

lemma stamp_55020: "stamp 63839664055020000 = ''2024/01/01T00:00:55.020''"
  by (simp add: dt_eval)

lemmas stamps = stamp_010 stamp_015 stamp_020 stamp_5015 stamp_55010 stamp_55020

lemmas gen_eval = small_def mixed_big_def nodeA_def nodeF_def Node_def start1_def st_c_def
  record1_def py_range_def flow_times_def timedelta_def us_per_day_def dt_limit_def stamps
  fmt3_def str_int_def digits.simps digit_char_def ip3_def opt_val_def randint_def
  print_rwcut_line_def field_text_def upt_0_num upt_1_num

lemma amplifiers_in:
  "gen_amplifiers small record1 start1 True nodeA k (st_c c (3 # 7 # tape) es)
     = Inr (st_c c tape (es @ [(k, ampA_in)]))"
  by (simp add: gen_amplifiers_def amplifier_flow_def amplifier_fields_def gen_eval dgA0
      ampA_in_def)

lemma amplifiers_out:
  "gen_amplifiers small record1 start1 False nodeA k (st_c c (3 # 7 # tape) es)
     = Inr (st_c c tape (es @ [(k, ampA_out)]))"
  by (simp add: gen_amplifiers_def amplifier_flow_def amplifier_fields_def gen_eval dgA0
      ampA_out_def)

lemma bots_out:
  "gen_bots small record1 start1 False nodeA k (st_c 0 (1 # 2 # 3 # 4 # tape) es)
     = Inr (st_c 2 tape (es @ [(k, botA0), (k, botA1)]))"
  by (simp add: gen_bots_def bot_flow_def bot_fields_def get_bot_src_port_def gen_eval
      dgA0b dgA1b botA0_def botA1_def)

lemma victim_in:
  "gen_victim small record1 start1 True (st_c 0 (3 # 7 # 1 # 2 # 3 # 4 # tape) es)
     = Inr (st_c 2 tape (es @ [((nodeF, True), ampA_out), ((nodeF, True), botA0),
                               ((nodeF, True), botA1)]))"
  by (simp add: gen_victim_def victim_amplifiers_def victim_bots_def victim_amplifier_flow_def
      victim_bot_flow_def get_bot_src_port_def gen_eval dgA0 dgA0b dgA1b
      ampA_out_def botA0_def botA1_def)

lemma probes_in:
  "gen_probes small record1 start1 True nodeF k
       (st_c c (9 # 44 # 0 # 1 # 2 # 3 # 4 # 1000 # tape) es)
     = Inr (st_c c tape (es @ [(k, probeF)]))"
  by (simp add: gen_probes_def probe_flow_def probe_fields_def gen_rand_ip_def rand_prefix_def
      RESERVED_CLASS_A_def gen_eval probeF_def)

lemma probes_out:
  "gen_probes small record1 start1 False nodeF k st = Inr st"
  by (simp add: gen_probes_def)

end
